theory Spec2Isabelle
  imports Main "HOL-Library.Word"
begin

unbundle bit_operations_syntax

section \<open>Bytes, errors and Go slices\<close>

text \<open>
  The repository holds two EXIF decoders of package \<^verbatim>\<open>exif\<close>:
  \<^verbatim>\<open>parseExif\<close> (extractor.go, result \<^verbatim>\<open>Metadata\<close>) and \<^verbatim>\<open>parseEXIF\<close>
  (parser.go, result \<^verbatim>\<open>Summary\<close>). Both are embedded below, function by function.
  Go's \<^verbatim>\<open>byte\<close>, \<^verbatim>\<open>uint16\<close> and \<^verbatim>\<open>uint32\<close> are words of that width, so that
  \<^verbatim>\<open>count*8\<close> on \<^verbatim>\<open>uint32\<close> wraps as it does in Go. Go's \<^verbatim>\<open>int\<close> is taken to be the
  64-bit integer of the usual platforms: every \<^verbatim>\<open>int\<close> of the code is a buffer length, a
  32-bit value or a small sum or product of those, so it neither overflows nor goes
  negative, and it is modelled by \<open>nat\<close>.
\<close>

type_synonym byte = "8 word"
type_synonym uint16 = "16 word"
type_synonym uint32 = "32 word"

datatype byteorder = LittleEndian | BigEndian

text \<open>
  The errors of both files, one constructor per error value, and \<open>Panic\<close> for Go's
  run-time panic on an index or slice bound out of range.
\<close>

datatype error =
    ErrExifNotFound
  | ErrInvalidExif
  | NotAJpegImage
  | InvalidJpegMarker
  | InvalidJpegSegmentLength
  | ExifDataNotFound
  | ExifBlockTooShort
  | TiffHeaderTooShort
  | UnknownByteOrder
  | InvalidTiffHeader
  | IfdOffsetOutOfRange
  | IfdEntriesOutOfRange
  | Panic

fun error_message :: "error \<Rightarrow> string" where
  "error_message ErrExifNotFound = ''exif data not found''"
| "error_message ErrInvalidExif = ''invalid exif data''"
| "error_message NotAJpegImage = ''not a jpeg image''"
| "error_message InvalidJpegMarker = ''invalid jpeg marker''"
| "error_message InvalidJpegSegmentLength = ''invalid jpeg segment length''"
| "error_message ExifDataNotFound = ''exif data not found''"
| "error_message ExifBlockTooShort = ''exif block too short''"
| "error_message TiffHeaderTooShort = ''tiff header too short''"
| "error_message UnknownByteOrder = ''unknown byte order''"
| "error_message InvalidTiffHeader = ''invalid tiff header''"
| "error_message IfdOffsetOutOfRange = ''ifd offset out of range''"
| "error_message IfdEntriesOutOfRange = ''ifd entries out of range''"
| "error_message Panic = ''runtime error: index out of range''"

text \<open>Sequencing of fallible steps: the first error (or panic) is the result.\<close>

definition andThen :: "error + 'a \<Rightarrow> ('a \<Rightarrow> error + 'b) \<Rightarrow> error + 'b" where
  "andThen r f = (case r of Inl e \<Rightarrow> Inl e | Inr v \<Rightarrow> f v)"

lemma andThen_cong [fundef_cong]:
  "r = r' \<Longrightarrow> (\<And>v. r' = Inr v \<Longrightarrow> f v = f' v) \<Longrightarrow> andThen r f = andThen r' f'"
  by (cases r') (simp_all add: andThen_def)

text \<open>
  A Go slice of bytes is a window on a backing array: \<open>elems\<close> are the bytes below its
  length, \<open>spare\<close> the bytes of the backing array between its length and its capacity.
  An index expression \<^verbatim>\<open>s[i]\<close> needs \<^verbatim>\<open>i < len(s)\<close>; a slice expression \<^verbatim>\<open>s[lo:hi]\<close>
  needs \<^verbatim>\<open>lo <= hi <= cap(s)\<close>; anything else panics.
\<close>

record gslice =
  elems :: "byte list"
  spare :: "byte list"

definition slen :: "gslice \<Rightarrow> nat" where
  "slen s = length (elems s)"

definition scap :: "gslice \<Rightarrow> nat" where
  "scap s = length (elems s) + length (spare s)"

definition fromBytes :: "byte list \<Rightarrow> gslice" where
  "fromBytes xs = \<lparr>elems = xs, spare = []\<rparr>"

definition makeBytes :: "nat \<Rightarrow> gslice" where
  "makeBytes n = \<lparr>elems = replicate n 0, spare = []\<rparr>"

definition index :: "gslice \<Rightarrow> nat \<Rightarrow> error + byte" where
  "index s i = (if i < slen s then Inr (elems s ! i) else Inl Panic)"

definition slice :: "gslice \<Rightarrow> nat \<Rightarrow> nat \<Rightarrow> error + gslice" where
  "slice s lo hi =
     (if lo \<le> hi \<and> hi \<le> scap s
      then Inr \<lparr>elems = take (hi - lo) (drop lo (elems s @ spare s)),
                spare = drop hi (elems s @ spare s)\<rparr>
      else Inl Panic)"

definition sliceFrom :: "gslice \<Rightarrow> nat \<Rightarrow> error + gslice" where
  "sliceFrom s lo = slice s lo (slen s)"

definition sliceTo :: "gslice \<Rightarrow> nat \<Rightarrow> error + gslice" where
  "sliceTo s hi = slice s 0 hi"

text \<open>Go's \<^verbatim>\<open>string(b)\<close> of a byte slice: the same bytes, as characters.\<close>

definition goString :: "byte list \<Rightarrow> string" where
  "goString bs = map (\<lambda>b. char_of (unat b)) bs"

subsection \<open>encoding/binary\<close>

text \<open>
  \<^verbatim>\<open>Uint16\<close>, \<^verbatim>\<open>Uint32\<close> and \<^verbatim>\<open>PutUint32\<close> of \<^verbatim>\<open>binary.LittleEndian\<close> and
  \<^verbatim>\<open>binary.BigEndian\<close>. Each one first touches the last byte it needs
  (\<^verbatim>\<open>_ = b[1]\<close>, \<^verbatim>\<open>_ = b[3]\<close>), which panics on a slice that is too short.
\<close>

definition compose16 :: "byteorder \<Rightarrow> byte \<Rightarrow> byte \<Rightarrow> uint16" where
  "compose16 ord b0 b1 =
     (case ord of
        LittleEndian \<Rightarrow> ucast b0 OR push_bit 8 (ucast b1)
      | BigEndian \<Rightarrow> ucast b1 OR push_bit 8 (ucast b0))"

definition compose32 :: "byteorder \<Rightarrow> byte \<Rightarrow> byte \<Rightarrow> byte \<Rightarrow> byte \<Rightarrow> uint32" where
  "compose32 ord b0 b1 b2 b3 =
     (case ord of
        LittleEndian \<Rightarrow>
          ucast b0 OR push_bit 8 (ucast b1) OR push_bit 16 (ucast b2) OR push_bit 24 (ucast b3)
      | BigEndian \<Rightarrow>
          ucast b3 OR push_bit 8 (ucast b2) OR push_bit 16 (ucast b1) OR push_bit 24 (ucast b0))"

definition bytes32 :: "byteorder \<Rightarrow> uint32 \<Rightarrow> byte list" where
  "bytes32 ord v =
     (case ord of
        LittleEndian \<Rightarrow>
          [ucast v, ucast (drop_bit 8 v), ucast (drop_bit 16 v), ucast (drop_bit 24 v)]
      | BigEndian \<Rightarrow>
          [ucast (drop_bit 24 v), ucast (drop_bit 16 v), ucast (drop_bit 8 v), ucast v])"

definition Uint16 :: "byteorder \<Rightarrow> gslice \<Rightarrow> error + uint16" where
  "Uint16 ord b =
     (if slen b < 2 then Inl Panic
      else Inr (compose16 ord (elems b ! 0) (elems b ! 1)))"

definition Uint32 :: "byteorder \<Rightarrow> gslice \<Rightarrow> error + uint32" where
  "Uint32 ord b =
     (if slen b < 4 then Inl Panic
      else Inr (compose32 ord (elems b ! 0) (elems b ! 1) (elems b ! 2) (elems b ! 3)))"

definition PutUint32 :: "byteorder \<Rightarrow> gslice \<Rightarrow> uint32 \<Rightarrow> error + gslice" where
  "PutUint32 ord b v =
     (if slen b < 4 then Inl Panic
      else Inr (b\<lparr>elems := bytes32 ord v @ drop 4 (elems b)\<rparr>))"

subsection \<open>fmt.Sprintf\<close>

text \<open>
  \<^verbatim>\<open>fmt.Sprintf("%d", v)\<close> of an unsigned integer is \<open>decimal\<close>, of a signed one
  \<open>decimalSigned\<close>; \<^verbatim>\<open>fmt.Sprintf("%x", b)\<close> is \<open>hexadecimal\<close> (lowercase, no padding).
\<close>

definition digit :: "nat \<Rightarrow> char" where
  "digit n = ''0123456789abcdef'' ! n"

function decimal :: "nat \<Rightarrow> string" where
  "decimal n = (if n < 10 then [digit n] else decimal (n div 10) @ [digit (n mod 10)])"
  by pat_completeness auto
termination
  by (relation "measure id") auto

declare decimal.simps [simp del]

definition decimalSigned :: "int \<Rightarrow> string" where
  "decimalSigned i = (if i < 0 then ''-'' @ decimal (nat (- i)) else decimal (nat i))"

function hexadecimal :: "nat \<Rightarrow> string" where
  "hexadecimal n = (if n < 16 then [digit n] else hexadecimal (n div 16) @ [digit (n mod 16)])"
  by pat_completeness auto
termination
  by (relation "measure id") auto

declare hexadecimal.simps [simp del]

subsection \<open>fmt.Sscanf\<close>

text \<open>
  \<^verbatim>\<open>fmt.Sscanf(value, "%d", &parsed)\<close> with \<^verbatim>\<open>parsed\<close> a \<^verbatim>\<open>uint32\<close>, after the Go
  library: leading space is skipped (a newline is an error; the spaces are the ASCII
  ones and the Unicode spaces U+0085, U+00A0, U+1680, U+2000 to U+200A, U+2028, U+2029,
  U+202F, U+205F and U+3000 in UTF-8), then the longest run of the characters
  \<^verbatim>\<open>0123456789_\<close> is the token; an empty token, an underscore (refused by
  \<^verbatim>\<open>strconv.ParseUint\<close> in base 10) and a value that does not fit 32 bits are errors.
  Text after the token is not looked at. \<open>None\<close> stands for a non-nil error.
\<close>

definition code :: "char \<Rightarrow> nat" where
  "code c = of_char c"

definition spaceRune :: "string \<Rightarrow> nat" where
  "spaceRune s =
     (case map code (take 3 s) of
        [a, b, c] \<Rightarrow>
          if a = 0xC2 \<and> (b = 0x85 \<or> b = 0xA0) then 2
          else if (a = 0xE1 \<and> b = 0x9A \<and> c = 0x80)
                \<or> (a = 0xE2 \<and> b = 0x80
                    \<and> ((0x80 \<le> c \<and> c \<le> 0x8A) \<or> c = 0xA8 \<or> c = 0xA9 \<or> c = 0xAF))
                \<or> (a = 0xE2 \<and> b = 0x81 \<and> c = 0x9F)
                \<or> (a = 0xE3 \<and> b = 0x80 \<and> c = 0x80) then 3
          else 0
      | [a, b] \<Rightarrow> if a = 0xC2 \<and> (b = 0x85 \<or> b = 0xA0) then 2 else 0
      | _ \<Rightarrow> 0)"

function skipSpace :: "string \<Rightarrow> string option" where
  "skipSpace [] = Some []"
| "skipSpace (c # cs) =
     (if code c = 0x0A then None
      else if (0x09 \<le> code c \<and> code c \<le> 0x0D) \<or> code c = 0x20 then skipSpace cs
      else if spaceRune (c # cs) = 0 then Some (c # cs)
      else skipSpace (drop (spaceRune (c # cs) - 1) cs))"
  by pat_completeness auto
termination
  by (relation "measure length") auto

fun digitsValue :: "string \<Rightarrow> nat \<Rightarrow> nat" where
  "digitsValue [] acc = acc"
| "digitsValue (c # cs) acc = digitsValue cs (acc * 10 + (code c - 48))"

definition parseUint32 :: "string \<Rightarrow> uint32 option" where
  "parseUint32 v =
     (case skipSpace v of
        None \<Rightarrow> None
      | Some r \<Rightarrow>
          let tok = takeWhile (\<lambda>c. c \<in> set ''0123456789_'') r in
          if tok = [] \<or> CHR ''_'' \<in> set tok then None
          else if digitsValue tok 0 < 2 ^ 32 then Some (of_nat (digitsValue tok 0))
          else None)"

subsection \<open>time.Parse and time.Format\<close>

text \<open>
  \<^verbatim>\<open>time.Parse("2006:01:02 15:04:05", raw)\<close>, after the Go library: four digits of
  year, \<^verbatim>\<open>:\<close>, two digits of month (1 to 12), \<^verbatim>\<open>:\<close>, two digits of day, any number of
  blanks, one or two digits of hour (below 24), \<^verbatim>\<open>:\<close>, two digits of minute, \<^verbatim>\<open>:\<close>, two
  digits of second (both below 60), then optionally a period or comma and digits (a
  fractional second, which the library accepts after the seconds of any layout), and
  nothing else; the day must exist in that month of that year. The result is the fields
  of the time, in UTC. \<^verbatim>\<open>Format(time.RFC3339)\<close> of such a time is \<open>formatRFC3339\<close>.
\<close>

definition isDigit :: "string \<Rightarrow> nat \<Rightarrow> bool" where
  "isDigit s i = (i < length s \<and> 48 \<le> code (s ! i) \<and> code (s ! i) \<le> 57)"

definition getnum :: "string \<Rightarrow> bool \<Rightarrow> (nat \<times> string) option" where
  "getnum s fixed =
     (if \<not> isDigit s 0 then None
      else if \<not> isDigit s 1 then (if fixed then None else Some (code (s ! 0) - 48, drop 1 s))
      else Some ((code (s ! 0) - 48) * 10 + (code (s ! 1) - 48), drop 2 s))"

definition skipChar :: "char \<Rightarrow> string \<Rightarrow> string option" where
  "skipChar c s = (case s of [] \<Rightarrow> None | x # r \<Rightarrow> if x = c then Some r else None)"

definition skipBlanks :: "string \<Rightarrow> string option" where
  "skipBlanks s =
     (case s of
        [] \<Rightarrow> Some []
      | x # r \<Rightarrow> if x \<noteq> CHR '' '' then None else Some (dropWhile (\<lambda>c. c = CHR '' '') s))"

definition isLeap :: "nat \<Rightarrow> bool" where
  "isLeap year = (year mod 4 = 0 \<and> (year mod 100 \<noteq> 0 \<or> year mod 400 = 0))"

definition daysIn :: "nat \<Rightarrow> nat \<Rightarrow> nat" where
  "daysIn month year =
     (if month = 2 then (if isLeap year then 29 else 28)
      else if month = 4 \<or> month = 6 \<or> month = 9 \<or> month = 11 then 30
      else 31)"

definition skipFraction :: "string \<Rightarrow> string" where
  "skipFraction s =
     (if 2 \<le> length s \<and> (s ! 0 = CHR ''.'' \<or> s ! 0 = CHR '','') \<and> isDigit s 1
      then dropWhile (\<lambda>c. 48 \<le> code c \<and> code c \<le> 57) (drop 2 s)
      else s)"

definition timeParse :: "string \<Rightarrow> (nat \<times> nat \<times> nat \<times> nat \<times> nat \<times> nat) option" where
  "timeParse v =
     (if length v < 4 \<or> \<not> (isDigit v 0 \<and> isDigit v 1 \<and> isDigit v 2 \<and> isDigit v 3) then None
      else
        let year = digitsValue (take 4 v) 0 in
        Option.bind (skipChar (CHR '':'') (drop 4 v)) (\<lambda>v1.
        Option.bind (getnum v1 True) (\<lambda>(month, v2).
        if month = 0 \<or> 12 < month then None
        else
          Option.bind (skipChar (CHR '':'') v2) (\<lambda>v3.
          Option.bind (getnum v3 True) (\<lambda>(day, v4).
          Option.bind (skipBlanks v4) (\<lambda>v5.
          Option.bind (getnum v5 False) (\<lambda>(hour, v6).
          if 24 \<le> hour then None
          else
            Option.bind (skipChar (CHR '':'') v6) (\<lambda>v7.
            Option.bind (getnum v7 True) (\<lambda>(minute, v8).
            if 60 \<le> minute then None
            else
              Option.bind (skipChar (CHR '':'') v8) (\<lambda>v9.
              Option.bind (getnum v9 True) (\<lambda>(second, v10).
              if 60 \<le> second then None
              else if skipFraction v10 \<noteq> [] then None
              else if day < 1 \<or> daysIn month year < day then None
              else Some (year, month, day, hour, minute, second))))))))))))"

definition pad :: "nat \<Rightarrow> nat \<Rightarrow> string" where
  "pad w n = replicate (w - length (decimal n)) (CHR ''0'') @ decimal n"

definition formatRFC3339 :: "nat \<times> nat \<times> nat \<times> nat \<times> nat \<times> nat \<Rightarrow> string" where
  "formatRFC3339 tm =
     (case tm of (year, month, day, hour, minute, second) \<Rightarrow>
        pad 4 year @ ''-'' @ pad 2 month @ ''-'' @ pad 2 day @ ''T''
          @ pad 2 hour @ '':'' @ pad 2 minute @ '':'' @ pad 2 second @ ''Z'')"

section \<open>extractor.go\<close>

abbreviation "tagMake \<equiv> (0x010F :: uint16)"
abbreviation "tagModel \<equiv> (0x0110 :: uint16)"
abbreviation "tagDateTime \<equiv> (0x0132 :: uint16)"
abbreviation "tagExifIFD \<equiv> (0x8769 :: uint16)"
abbreviation "tagExposureTime \<equiv> (0x829A :: uint16)"
abbreviation "tagFNumber \<equiv> (0x829D :: uint16)"
abbreviation "tagISO \<equiv> (0x8827 :: uint16)"
abbreviation "tagFocalLength \<equiv> (0x920A :: uint16)"
abbreviation "tagLensModel \<equiv> (0xA434 :: uint16)"
abbreviation "typeByte \<equiv> (1 :: uint16)"
abbreviation "typeASCII \<equiv> (2 :: uint16)"
abbreviation "typeShort \<equiv> (3 :: uint16)"
abbreviation "typeLong \<equiv> (4 :: uint16)"
abbreviation "typeRational \<equiv> (5 :: uint16)"
abbreviation "typeUndefined \<equiv> (7 :: uint16)"
abbreviation "typeSLONG \<equiv> (9 :: uint16)"
abbreviation "typeSRational \<equiv> (10 :: uint16)"
abbreviation "jpegSOI \<equiv> (0xD8 :: byte)"
abbreviation "jpegAPP1 \<equiv> (0xE1 :: byte)"
abbreviation "jpegSOS \<equiv> (0xDA :: byte)"
abbreviation "tiffIdentifier \<equiv> (0x002A :: uint16)"
abbreviation "exifHeaderLength \<equiv> (6 :: nat)"

text \<open>The string \<^verbatim>\<open>"Exif\x00\x00"\<close>.\<close>

definition exifHeader :: string where
  "exifHeader = [CHR ''E'', CHR ''x'', CHR ''i'', CHR ''f'', CHR 0x00, CHR 0x00]"

record Metadata =
  Make :: string
  Model :: string
  DateTime :: string
  LensModel :: string
  ExposureTime :: string
  FNumber :: string
  ISO :: string
  FocalLength :: string

record tiffData =
  order :: byteorder
  data :: gslice

text \<open>
  \<^verbatim>\<open>findExifBlock\<close>: the loop over the marker segments from offset 2. The \<^verbatim>\<open>break\<close> at
  the start-of-scan marker leaves the loop for the final \<^verbatim>\<open>exif data not found\<close>.
\<close>

function findExifBlock_loop :: "gslice \<Rightarrow> nat \<Rightarrow> error + gslice" where
  "findExifBlock_loop d offset =
     (if offset + 4 \<le> slen d then
        andThen (index d offset) (\<lambda>b.
        if b \<noteq> 0xFF then Inl InvalidJpegMarker
        else
          andThen (index d (offset + 1)) (\<lambda>marker.
          if marker = jpegSOS then Inl ExifDataNotFound
          else
            andThen (slice d (offset + 2) (offset + 4)) (\<lambda>lb.
            andThen (Uint16 BigEndian lb) (\<lambda>l.
              let segmentLength = unat l in
              if segmentLength < 2 \<or> offset + 2 + segmentLength > slen d
              then Inl InvalidJpegSegmentLength
              else
                let segmentStart = offset + 4; segmentEnd = offset + 2 + segmentLength in
                if marker = jpegAPP1 \<and> segmentEnd - segmentStart \<ge> exifHeaderLength then
                  andThen (slice d segmentStart segmentEnd) (\<lambda>segment.
                  andThen (sliceTo segment exifHeaderLength) (\<lambda>h.
                    if goString (elems h) = exifHeader then Inr segment
                    else findExifBlock_loop d segmentEnd))
                else findExifBlock_loop d segmentEnd))))
      else Inl ExifDataNotFound)"
  by pat_completeness auto
termination
  by (relation "measure (\<lambda>(d, offset). slen d - offset)") auto

declare findExifBlock_loop.simps [simp del]

definition findExifBlock :: "gslice \<Rightarrow> error + gslice" where
  "findExifBlock d =
     (if slen d < 4 then Inl NotAJpegImage
      else
        andThen (index d 0) (\<lambda>b0.
        if b0 \<noteq> 0xFF then Inl NotAJpegImage
        else
          andThen (index d 1) (\<lambda>b1.
          if b1 \<noteq> jpegSOI then Inl NotAJpegImage
          else findExifBlock_loop d 2)))"

definition parseByteOrder :: "gslice \<Rightarrow> error + byteorder" where
  "parseByteOrder d =
     (if slen d < 2 then Inl TiffHeaderTooShort
      else
        andThen (sliceTo d 2) (\<lambda>b.
          if goString (elems b) = ''II'' then Inr LittleEndian
          else if goString (elems b) = ''MM'' then Inr BigEndian
          else Inl UnknownByteOrder))"

text \<open>
  \<^verbatim>\<open>readData\<close>: a value of at most 4 bytes is rebuilt from the decoded value slot in a
  fresh 4-byte buffer; a longer one is the sub-slice of the TIFF buffer at the offset.
  The result \<open>None\<close> is Go's \<^verbatim>\<open>nil\<close>.
\<close>

definition readData :: "tiffData \<Rightarrow> uint32 \<Rightarrow> uint32 \<Rightarrow> error + gslice option" where
  "readData t sz valueOffset =
     (if sz \<le> 4 then
        andThen (PutUint32 (order t) (makeBytes 4) valueOffset) (\<lambda>buffer.
        andThen (sliceTo buffer (unat sz)) (\<lambda>s. Inr (Some s)))
      else
        let start = unat valueOffset; endpos = start + unat sz in
        if endpos > slen (data t) then Inr None
        else andThen (slice (data t) start endpos) (\<lambda>s. Inr (Some s)))"

text \<open>
  The readers return Go's \<^verbatim>\<open>(string, bool)\<close> as a \<open>string option\<close>: \<open>None\<close> is
  \<^verbatim>\<open>("", false)\<close>. In \<^verbatim>\<open>readASCII\<close> the loop returns \<^verbatim>\<open>data[:i]\<close> at the first zero
  byte, with \<^verbatim>\<open>i < len(data)\<close>, and the whole of \<^verbatim>\<open>data\<close> when there is none.
\<close>

definition readASCII :: "tiffData \<Rightarrow> uint32 \<Rightarrow> uint32 \<Rightarrow> error + string option" where
  "readASCII t count valueOffset =
     (if count = 0 then Inr None
      else
        andThen (readData t count valueOffset) (\<lambda>r.
        case r of
          None \<Rightarrow> Inr None
        | Some d \<Rightarrow> Inr (Some (goString (takeWhile (\<lambda>b. b \<noteq> 0x00) (elems d))))))"

definition readRational :: "tiffData \<Rightarrow> uint32 \<Rightarrow> uint32 \<Rightarrow> bool \<Rightarrow> error + string option" where
  "readRational t count valueOffset isSigned =
     (if count = 0 then Inr None
      else
        andThen (readData t (count * 8) valueOffset) (\<lambda>r.
        case r of
          None \<Rightarrow> Inr None
        | Some d \<Rightarrow>
            if isSigned then
              andThen (slice d 0 4) (\<lambda>nb.
              andThen (Uint32 (order t) nb) (\<lambda>numerator.
              andThen (slice d 4 8) (\<lambda>db.
              andThen (Uint32 (order t) db) (\<lambda>denominator.
                if sint denominator = 0 then Inr None
                else Inr (Some (decimalSigned (sint numerator) @ ''/''
                                  @ decimalSigned (sint denominator)))))))
            else
              andThen (slice d 0 4) (\<lambda>nb.
              andThen (Uint32 (order t) nb) (\<lambda>numerator.
              andThen (slice d 4 8) (\<lambda>db.
              andThen (Uint32 (order t) db) (\<lambda>denominator.
                if denominator = 0 then Inr None
                else Inr (Some (decimal (unat numerator) @ ''/''
                                  @ decimal (unat denominator)))))))))"

definition readShort :: "tiffData \<Rightarrow> uint32 \<Rightarrow> uint32 \<Rightarrow> error + string option" where
  "readShort t count valueOffset =
     (if count = 0 then Inr None
      else
        andThen (readData t (count * 2) valueOffset) (\<lambda>r.
        case r of
          None \<Rightarrow> Inr None
        | Some d \<Rightarrow>
            andThen (sliceTo d 2) (\<lambda>b.
            andThen (Uint16 (order t) b) (\<lambda>v. Inr (Some (decimal (unat v)))))))"

definition readLong :: "tiffData \<Rightarrow> uint32 \<Rightarrow> uint32 \<Rightarrow> error + string option" where
  "readLong t count valueOffset =
     (if count = 0 then Inr None
      else
        andThen (readData t (count * 4) valueOffset) (\<lambda>r.
        case r of
          None \<Rightarrow> Inr None
        | Some d \<Rightarrow>
            andThen (sliceTo d 4) (\<lambda>b.
            andThen (Uint32 (order t) b) (\<lambda>v. Inr (Some (decimal (unat v)))))))"

definition readSignedLong :: "tiffData \<Rightarrow> uint32 \<Rightarrow> uint32 \<Rightarrow> error + string option" where
  "readSignedLong t count valueOffset =
     (if count = 0 then Inr None
      else
        andThen (readData t (count * 4) valueOffset) (\<lambda>r.
        case r of
          None \<Rightarrow> Inr None
        | Some d \<Rightarrow>
            andThen (sliceTo d 4) (\<lambda>b.
            andThen (Uint32 (order t) b) (\<lambda>v. Inr (Some (decimalSigned (sint v)))))))"

definition readByte :: "tiffData \<Rightarrow> uint32 \<Rightarrow> uint32 \<Rightarrow> error + string option" where
  "readByte t count valueOffset =
     (if count = 0 then Inr None
      else
        andThen (readData t count valueOffset) (\<lambda>r.
        case r of
          None \<Rightarrow> Inr None
        | Some d \<Rightarrow> andThen (index d 0) (\<lambda>b. Inr (Some (hexadecimal (unat b))))))"

definition readValue :: "tiffData \<Rightarrow> uint16 \<Rightarrow> uint32 \<Rightarrow> uint32 \<Rightarrow> error + string option" where
  "readValue t tagType count valueOffset =
     (if tagType = typeASCII then readASCII t count valueOffset
      else if tagType = typeRational then readRational t count valueOffset False
      else if tagType = typeSRational then readRational t count valueOffset True
      else if tagType = typeShort then readShort t count valueOffset
      else if tagType = typeLong then readLong t count valueOffset
      else if tagType = typeByte \<or> tagType = typeUndefined then readByte t count valueOffset
      else if tagType = typeSLONG then readSignedLong t count valueOffset
      else Inr None)"

text \<open>
  The method \<^verbatim>\<open>parseIFD\<close> of \<^verbatim>\<open>tiffData\<close> (parser.go has a function of the same name):
  \<open>tiffData_parseIFD_entry\<close> is the body of the loop at one entry,
  \<open>tiffData_parseIFD_loop\<close> the loop \<^verbatim>\<open>for i := 0; i < int(entryCount); i++\<close> over the
  list of its indices. The sums \<^verbatim>\<open>offset+2\<close> are \<^verbatim>\<open>uint32\<close> sums, as in the source.
\<close>

record tagValue =
  tagType :: uint16
  tvalue :: string

definition tiffData_parseIFD_entry ::
    "tiffData \<Rightarrow> nat \<Rightarrow> (uint16 \<rightharpoonup> tagValue) \<Rightarrow> error + (uint16 \<rightharpoonup> tagValue)" where
  "tiffData_parseIFD_entry t entryOffset values =
     andThen (slice (data t) entryOffset (entryOffset + 2)) (\<lambda>b1.
     andThen (Uint16 (order t) b1) (\<lambda>tag.
     andThen (slice (data t) (entryOffset + 2) (entryOffset + 4)) (\<lambda>b2.
     andThen (Uint16 (order t) b2) (\<lambda>tagType.
     andThen (slice (data t) (entryOffset + 4) (entryOffset + 8)) (\<lambda>b3.
     andThen (Uint32 (order t) b3) (\<lambda>count.
     andThen (slice (data t) (entryOffset + 8) (entryOffset + 12)) (\<lambda>b4.
     andThen (Uint32 (order t) b4) (\<lambda>valueOffset.
     andThen (readValue t tagType count valueOffset) (\<lambda>r.
       case r of
         None \<Rightarrow> Inr values
       | Some v \<Rightarrow> Inr (values(tag \<mapsto> \<lparr>tagType = tagType, tvalue = v\<rparr>)))))))))))"

fun tiffData_parseIFD_loop ::
    "tiffData \<Rightarrow> nat \<Rightarrow> nat list \<Rightarrow> (uint16 \<rightharpoonup> tagValue) \<Rightarrow> error + (uint16 \<rightharpoonup> tagValue)" where
  "tiffData_parseIFD_loop t entriesStart [] values = Inr values"
| "tiffData_parseIFD_loop t entriesStart (i # rest) values =
     andThen (tiffData_parseIFD_entry t (entriesStart + i * 12) values)
       (tiffData_parseIFD_loop t entriesStart rest)"

definition tiffData_parseIFD :: "tiffData \<Rightarrow> uint32 \<Rightarrow> error + (uint16 \<rightharpoonup> tagValue)" where
  "tiffData_parseIFD t offset =
     (if offset = 0 then Inr Map.empty
      else if unat offset + 2 > slen (data t) then Inl IfdOffsetOutOfRange
      else
        andThen (slice (data t) (unat offset) (unat (offset + 2))) (\<lambda>b.
        andThen (Uint16 (order t) b) (\<lambda>entryCount.
          let entriesStart = unat (offset + 2);
              entriesEnd = entriesStart + unat entryCount * 12 in
          if entriesEnd > slen (data t) then Inl IfdEntriesOutOfRange
          else tiffData_parseIFD_loop t entriesStart [0..<unat entryCount] Map.empty)))"

text \<open>
  \<^verbatim>\<open>parseExif\<close>. \<open>lookupValue tags k\<close> is \<^verbatim>\<open>tags[k].value\<close>: the empty string for a
  missing key. \<open>mergeExifIFD\<close> is the block that follows the pointer of tag 0x8769: an
  error of \<^verbatim>\<open>parseUint32\<close> or of the second \<^verbatim>\<open>parseIFD\<close> leaves the tags as they are
  (a panic is not an error value and goes on). The loop over \<^verbatim>\<open>ifdTags\<close> stores each of
  its entries in \<^verbatim>\<open>tags\<close>: the result is \<open>tags ++ ifdTags\<close>.
\<close>

definition lookupValue :: "(uint16 \<rightharpoonup> tagValue) \<Rightarrow> uint16 \<Rightarrow> string" where
  "lookupValue tags k = (case tags k of None \<Rightarrow> [] | Some tv \<Rightarrow> tvalue tv)"

definition mergeExifIFD ::
    "tiffData \<Rightarrow> (uint16 \<rightharpoonup> tagValue) \<Rightarrow> error + (uint16 \<rightharpoonup> tagValue)" where
  "mergeExifIFD tiff tags =
     (case tags tagExifIFD of
        None \<Rightarrow> Inr tags
      | Some pointer \<Rightarrow>
          (case parseUint32 (tvalue pointer) of
             None \<Rightarrow> Inr tags
           | Some exifOffset \<Rightarrow>
               (case tiffData_parseIFD tiff exifOffset of
                  Inl e \<Rightarrow> if e = Panic then Inl Panic else Inr tags
                | Inr ifdTags \<Rightarrow> Inr (tags ++ ifdTags))))"

definition reformatDateTime :: "string \<Rightarrow> string" where
  "reformatDateTime rawDate =
     (if rawDate \<noteq> [] then
        (case timeParse rawDate of Some parsed \<Rightarrow> formatRFC3339 parsed | None \<Rightarrow> rawDate)
      else [])"

definition buildMetadata :: "(uint16 \<rightharpoonup> tagValue) \<Rightarrow> Metadata" where
  "buildMetadata tags =
     \<lparr>Make = lookupValue tags tagMake,
      Model = lookupValue tags tagModel,
      DateTime = reformatDateTime (lookupValue tags tagDateTime),
      LensModel = lookupValue tags tagLensModel,
      ExposureTime = lookupValue tags tagExposureTime,
      FNumber = lookupValue tags tagFNumber,
      ISO = lookupValue tags tagISO,
      FocalLength = lookupValue tags tagFocalLength\<rparr>"

definition parseExif :: "gslice \<Rightarrow> error + Metadata" where
  "parseExif d =
     andThen (findExifBlock d) (\<lambda>exifBlock.
     if slen exifBlock < exifHeaderLength + 8 then Inl ExifBlockTooShort
     else
       andThen (sliceFrom exifBlock exifHeaderLength) (\<lambda>tiffBytes.
       andThen (parseByteOrder tiffBytes) (\<lambda>ord.
       andThen (slice tiffBytes 2 4) (\<lambda>mb.
       andThen (Uint16 ord mb) (\<lambda>magic.
       if magic \<noteq> tiffIdentifier then Inl InvalidTiffHeader
       else
         let tiff = \<lparr>order = ord, data = tiffBytes\<rparr> in
         andThen (slice tiffBytes 4 8) (\<lambda>ob.
         andThen (Uint32 ord ob) (\<lambda>ifdOffset.
         andThen (tiffData_parseIFD tiff ifdOffset) (\<lambda>tags.
         andThen (mergeExifIFD tiff tags) (\<lambda>merged.
           Inr (buildMetadata merged))))))))))"

section \<open>parser.go\<close>

abbreviation "ifdTagMake \<equiv> (0x010F :: uint16)"
abbreviation "ifdTagModel \<equiv> (0x0110 :: uint16)"
abbreviation "ifdTagOrientation \<equiv> (0x0112 :: uint16)"
abbreviation "ifdTagSoftware \<equiv> (0x0131 :: uint16)"
abbreviation "ifdTagDateTime \<equiv> (0x0132 :: uint16)"
abbreviation "ifdTagExifOffset \<equiv> (0x8769 :: uint16)"
abbreviation "ifdTagExposureTime \<equiv> (0x829A :: uint16)"
abbreviation "ifdTagFNumber \<equiv> (0x829D :: uint16)"
abbreviation "ifdTagISOSpeed \<equiv> (0x8827 :: uint16)"
abbreviation "ifdTagDateTimeOriginal \<equiv> (0x9003 :: uint16)"
abbreviation "ifdTagExposureProgram \<equiv> (0x8822 :: uint16)"
abbreviation "ifdTagMeteringMode \<equiv> (0x9207 :: uint16)"
abbreviation "ifdTagFlash \<equiv> (0x9209 :: uint16)"
abbreviation "ifdTagFocalLength \<equiv> (0x920A :: uint16)"
abbreviation "ifdTagWhiteBalance \<equiv> (0xA403 :: uint16)"
abbreviation "ifdTagSceneCaptureType \<equiv> (0xA406 :: uint16)"
abbreviation "ifdTagLensModel \<equiv> (0xA434 :: uint16)"

text \<open>The record \<^verbatim>\<open>Summary\<close> (its fields carry a prefix: \<^verbatim>\<open>Metadata\<close> has fields of the same names).\<close>

record Summary =
  sMake :: string
  sModel :: string
  sLensModel :: string
  sDateTime :: string
  sFNumber :: string
  sExposureTime :: string
  sISOSpeed :: string
  sFocalLength :: string
  sExposureProgram :: string
  sMeteringMode :: string
  sWhiteBalance :: string
  sSoftware :: string
  sOrientation :: string
  sFlash :: string
  sSceneCaptureType :: string

text \<open>\<^verbatim>\<open>strings.Join\<close> and \<^verbatim>\<open>strings.TrimRight(s, "\x00")\<close>.\<close>

fun stringsJoin :: "string list \<Rightarrow> string \<Rightarrow> string" where
  "stringsJoin [] sep = []"
| "stringsJoin [x] sep = x"
| "stringsJoin (x # y # rest) sep = x @ sep @ stringsJoin (y # rest) sep"

definition trimRightNul :: "string \<Rightarrow> string" where
  "trimRightNul s = rev (dropWhile (\<lambda>c. c = CHR 0x00) (rev s))"

function findExifSegment_loop :: "gslice \<Rightarrow> nat \<Rightarrow> error + nat" where
  "findExifSegment_loop d i =
     (if i + 4 < slen d then
        andThen (index d i) (\<lambda>b.
        if b \<noteq> 0xFF then findExifSegment_loop d (i + 1)
        else
          andThen (index d (i + 1)) (\<lambda>marker.
          if marker = 0xE1 then
            andThen (sliceFrom d (i + 2)) (\<lambda>lb.
            andThen (Uint16 BigEndian lb) (\<lambda>l.
              let len = unat l; segmentStart = i + 4 in
              if len < 2 \<or> segmentStart + len - 2 > slen d then Inl ErrInvalidExif
              else Inr segmentStart))
          else findExifSegment_loop d (i + 1)))
      else Inl ErrExifNotFound)"
  by pat_completeness auto
termination
  by (relation "measure (\<lambda>(d, i). slen d - i)") auto

declare findExifSegment_loop.simps [simp del]

definition findExifSegment :: "gslice \<Rightarrow> error + nat" where
  "findExifSegment d = findExifSegment_loop d 0"

definition byteOrder :: "gslice \<Rightarrow> error + byteorder" where
  "byteOrder d =
     (if slen d < 2 then Inl ErrInvalidExif
      else
        andThen (sliceTo d 2) (\<lambda>b.
          if goString (elems b) = ''II'' then Inr LittleEndian
          else if goString (elems b) = ''MM'' then Inr BigEndian
          else Inl ErrInvalidExif))"

definition typeSize :: "uint16 \<Rightarrow> nat option" where
  "typeSize fieldType =
     (if fieldType = typeByte \<or> fieldType = typeASCII then Some 1
      else if fieldType = typeShort then Some 2
      else if fieldType = typeLong \<or> fieldType = typeRational then Some 4
      else None)"

function formatShorts_loop :: "gslice \<Rightarrow> byteorder \<Rightarrow> nat \<Rightarrow> string list \<Rightarrow> error + string list" where
  "formatShorts_loop d ord i parts =
     (if i + 2 \<le> slen d then
        andThen (sliceFrom d i) (\<lambda>b.
        andThen (Uint16 ord b) (\<lambda>v.
          formatShorts_loop d ord (i + 2) (parts @ [decimal (unat v)])))
      else Inr parts)"
  by pat_completeness auto
termination
  by (relation "measure (\<lambda>(d, ord, i, parts). slen d + 2 - i)") auto

declare formatShorts_loop.simps [simp del]

definition formatShorts :: "gslice \<Rightarrow> byteorder \<Rightarrow> error + string" where
  "formatShorts d ord =
     andThen (formatShorts_loop d ord 0 []) (\<lambda>parts. Inr (stringsJoin parts '',''))"

function formatLongs_loop :: "gslice \<Rightarrow> byteorder \<Rightarrow> nat \<Rightarrow> string list \<Rightarrow> error + string list" where
  "formatLongs_loop d ord i parts =
     (if i + 4 \<le> slen d then
        andThen (sliceFrom d i) (\<lambda>b.
        andThen (Uint32 ord b) (\<lambda>v.
          formatLongs_loop d ord (i + 4) (parts @ [decimal (unat v)])))
      else Inr parts)"
  by pat_completeness auto
termination
  by (relation "measure (\<lambda>(d, ord, i, parts). slen d + 4 - i)") auto

declare formatLongs_loop.simps [simp del]

definition formatLongs :: "gslice \<Rightarrow> byteorder \<Rightarrow> error + string" where
  "formatLongs d ord =
     andThen (formatLongs_loop d ord 0 []) (\<lambda>parts. Inr (stringsJoin parts '',''))"

function formatRationals_loop :: "gslice \<Rightarrow> byteorder \<Rightarrow> nat \<Rightarrow> string list \<Rightarrow> error + string list" where
  "formatRationals_loop d ord i parts =
     (if i + 8 \<le> slen d then
        andThen (sliceFrom d i) (\<lambda>nb.
        andThen (Uint32 ord nb) (\<lambda>numerator.
        andThen (sliceFrom d (i + 4)) (\<lambda>db.
        andThen (Uint32 ord db) (\<lambda>denominator.
          if denominator = 0 then formatRationals_loop d ord (i + 8) (parts @ [''0''])
          else formatRationals_loop d ord (i + 8)
                 (parts @ [decimal (unat numerator) @ ''/'' @ decimal (unat denominator)])))))
      else Inr parts)"
  by pat_completeness auto
termination
  by (relation "measure (\<lambda>(d, ord, i, parts). slen d + 8 - i)") auto

declare formatRationals_loop.simps [simp del]

definition formatRationals :: "gslice \<Rightarrow> byteorder \<Rightarrow> error + string" where
  "formatRationals d ord =
     andThen (formatRationals_loop d ord 0 []) (\<lambda>parts. Inr (stringsJoin parts '',''))"

text \<open>
  \<^verbatim>\<open>readIFDValue\<close> returns Go's \<^verbatim>\<open>(string, bool)\<close> as a \<open>string option\<close>. The first step
  computes \<^verbatim>\<open>valueStart\<close> (\<open>None\<close> is its early \<^verbatim>\<open>return "", false\<close>); the test
  \<^verbatim>\<open>valueStart < 0\<close> is never true of a 64-bit \<^verbatim>\<open>int\<close> made of a length and a
  \<^verbatim>\<open>uint32\<close>.
\<close>

definition readIFDValue ::
    "gslice \<Rightarrow> nat \<Rightarrow> uint16 \<Rightarrow> uint32 \<Rightarrow> nat \<Rightarrow> byteorder \<Rightarrow> error + string option" where
  "readIFDValue d tiffStart fieldType count valueOffset ord =
     (case typeSize fieldType of
        None \<Rightarrow> Inr None
      | Some sizePerValue \<Rightarrow>
          let byteCount = unat count * sizePerValue in
          andThen
            (if byteCount > 4 then
               (if valueOffset + 4 > slen d then Inr None
                else
                  andThen (sliceFrom d valueOffset) (\<lambda>b.
                  andThen (Uint32 ord b) (\<lambda>v. Inr (Some (tiffStart + unat v)))))
             else Inr (Some valueOffset))
            (\<lambda>vs.
             case vs of
               None \<Rightarrow> Inr None
             | Some valueStart \<Rightarrow>
                 if valueStart + byteCount > slen d then Inr None
                 else
                   andThen (slice d valueStart (valueStart + byteCount)) (\<lambda>valueData.
                   if fieldType = typeASCII
                   then Inr (Some (trimRightNul (goString (elems valueData))))
                   else if fieldType = typeShort then
                     (if count = 1
                      then andThen (Uint16 ord valueData) (\<lambda>v. Inr (Some (decimal (unat v))))
                      else andThen (formatShorts valueData ord) (\<lambda>s. Inr (Some s)))
                   else if fieldType = typeLong then
                     (if count = 1
                      then andThen (Uint32 ord valueData) (\<lambda>v. Inr (Some (decimal (unat v))))
                      else andThen (formatLongs valueData ord) (\<lambda>s. Inr (Some s)))
                   else if fieldType = typeRational
                   then andThen (formatRationals valueData ord) (\<lambda>s. Inr (Some s))
                   else if fieldType = typeByte then
                     (if count = 1
                      then andThen (index valueData 0) (\<lambda>b. Inr (Some (decimal (unat b))))
                      else Inr None)
                   else Inr None)))"

text \<open>
  \<^verbatim>\<open>parseIFD\<close>: the state of the loop is the map \<^verbatim>\<open>values\<close> and \<^verbatim>\<open>exifOffset\<close>;
  \<open>parseIFD_entry\<close> is the body of the loop at one entry, \<open>parseIFD_loop\<close> the loop
  \<^verbatim>\<open>for i := 0; i < count; i++\<close> over the list of its indices.
\<close>

definition parseIFD_entry ::
    "gslice \<Rightarrow> nat \<Rightarrow> byteorder \<Rightarrow> nat \<Rightarrow> (uint16 \<rightharpoonup> string) \<times> nat
       \<Rightarrow> error + (uint16 \<rightharpoonup> string) \<times> nat" where
  "parseIFD_entry d tiffStart ord entryOffset st =
     (case st of (values, exifOffset) \<Rightarrow>
        andThen (sliceFrom d entryOffset) (\<lambda>b1.
        andThen (Uint16 ord b1) (\<lambda>tag.
        andThen (sliceFrom d (entryOffset + 2)) (\<lambda>b2.
        andThen (Uint16 ord b2) (\<lambda>fieldType.
        andThen (sliceFrom d (entryOffset + 4)) (\<lambda>b3.
        andThen (Uint32 ord b3) (\<lambda>count.
          let valueOffset = entryOffset + 8 in
          if tag = ifdTagExifOffset then
            (if fieldType \<noteq> typeLong \<or> count \<noteq> 1 then Inr (values, exifOffset)
             else
               andThen (sliceFrom d valueOffset) (\<lambda>b4.
               andThen (Uint32 ord b4) (\<lambda>v. Inr (values, unat v))))
          else
            andThen (readIFDValue d tiffStart fieldType count valueOffset ord) (\<lambda>r.
            case r of
              None \<Rightarrow> Inr (values, exifOffset)
            | Some v \<Rightarrow> Inr (values(tag \<mapsto> v), exifOffset)))))))))"

fun parseIFD_loop ::
    "gslice \<Rightarrow> nat \<Rightarrow> byteorder \<Rightarrow> nat \<Rightarrow> nat list \<Rightarrow> (uint16 \<rightharpoonup> string) \<times> nat
       \<Rightarrow> error + (uint16 \<rightharpoonup> string) \<times> nat" where
  "parseIFD_loop d tiffStart ord entryStart [] st = Inr st"
| "parseIFD_loop d tiffStart ord entryStart (i # rest) st =
     andThen (parseIFD_entry d tiffStart ord (entryStart + i * 12) st)
       (parseIFD_loop d tiffStart ord entryStart rest)"

definition parseIFD ::
    "gslice \<Rightarrow> nat \<Rightarrow> nat \<Rightarrow> byteorder \<Rightarrow> error + (uint16 \<rightharpoonup> string) \<times> nat" where
  "parseIFD d tiffStart offset ord =
     (if offset + 2 > slen d then Inl ErrInvalidExif
      else
        andThen (sliceFrom d offset) (\<lambda>b.
        andThen (Uint16 ord b) (\<lambda>c.
          let count = unat c; entryStart = offset + 2; entrySize = 12;
              entriesEnd = entryStart + count * entrySize in
          if entriesEnd > slen d then Inl ErrInvalidExif
          else parseIFD_loop d tiffStart ord entryStart [0..<count] (Map.empty, 0))))"

fun firstNonEmpty :: "string list \<Rightarrow> string" where
  "firstNonEmpty [] = []"
| "firstNonEmpty (v # vs) = (if v \<noteq> [] then v else firstNonEmpty vs)"

text \<open>
  \<open>lookupString m k\<close> is \<^verbatim>\<open>tagValues[k]\<close>: the empty string for a missing key. The loop
  over \<^verbatim>\<open>exifValues\<close> stores each of its entries in \<^verbatim>\<open>tagValues\<close>: the result is
  \<open>tagValues ++ exifValues\<close>.
\<close>

definition lookupString :: "(uint16 \<rightharpoonup> string) \<Rightarrow> uint16 \<Rightarrow> string" where
  "lookupString m k = (case m k of None \<Rightarrow> [] | Some v \<Rightarrow> v)"

definition buildSummary :: "(uint16 \<rightharpoonup> string) \<Rightarrow> Summary" where
  "buildSummary tagValues =
     \<lparr>sMake = lookupString tagValues ifdTagMake,
      sModel = lookupString tagValues ifdTagModel,
      sLensModel = lookupString tagValues ifdTagLensModel,
      sDateTime = firstNonEmpty [lookupString tagValues ifdTagDateTimeOriginal,
                                 lookupString tagValues ifdTagDateTime],
      sFNumber = lookupString tagValues ifdTagFNumber,
      sExposureTime = lookupString tagValues ifdTagExposureTime,
      sISOSpeed = lookupString tagValues ifdTagISOSpeed,
      sFocalLength = lookupString tagValues ifdTagFocalLength,
      sExposureProgram = lookupString tagValues ifdTagExposureProgram,
      sMeteringMode = lookupString tagValues ifdTagMeteringMode,
      sWhiteBalance = lookupString tagValues ifdTagWhiteBalance,
      sSoftware = lookupString tagValues ifdTagSoftware,
      sOrientation = lookupString tagValues ifdTagOrientation,
      sFlash = lookupString tagValues ifdTagFlash,
      sSceneCaptureType = lookupString tagValues ifdTagSceneCaptureType\<rparr>"

definition mergeExifValues ::
    "gslice \<Rightarrow> nat \<Rightarrow> byteorder \<Rightarrow> (uint16 \<rightharpoonup> string) \<Rightarrow> nat \<Rightarrow> error + (uint16 \<rightharpoonup> string)" where
  "mergeExifValues d tiffStart ord tagValues exifOffset =
     (if exifOffset > 0 then
        let exifIFDOffset = tiffStart + exifOffset in
        andThen (parseIFD d tiffStart exifIFDOffset ord) (\<lambda>r.
          case r of (exifValues, unused) \<Rightarrow> Inr (tagValues ++ exifValues))
      else Inr tagValues)"

definition parseEXIF :: "gslice \<Rightarrow> error + Summary" where
  "parseEXIF d =
     andThen (findExifSegment d) (\<lambda>segmentStart.
     if slen d < segmentStart + 6 then Inl ErrInvalidExif
     else
       andThen (slice d segmentStart (segmentStart + 6)) (\<lambda>h.
       if goString (elems h) \<noteq> exifHeader then Inl ErrInvalidExif
       else
         let tiffStart = segmentStart + 6 in
         if slen d < tiffStart + 8 then Inl ErrInvalidExif
         else
           andThen (sliceFrom d tiffStart) (\<lambda>tb.
           andThen (byteOrder tb) (\<lambda>ord.
           andThen (sliceFrom d (tiffStart + 4)) (\<lambda>ob.
           andThen (Uint32 ord ob) (\<lambda>v.
             let ifdOffset = unat v in
             if ifdOffset \<le> 0 then Inl ErrInvalidExif
             else
               let ifd0Offset = tiffStart + ifdOffset in
               andThen (parseIFD d tiffStart ifd0Offset ord) (\<lambda>r.
               case r of (tagValues, exifOffset) \<Rightarrow>
                 andThen (mergeExifValues d tiffStart ord tagValues exifOffset) (\<lambda>merged.
                   Inr (buildSummary merged)))))))))"

section \<open>Notions used in the statements\<close>

text \<open>
  The value bytes of an entry as extractor.go sees them (\<open>valueBytes\<close>: the four slot
  bytes when the size is at most 4, the bytes of the TIFF buffer from the offset
  otherwise), the place of the value in parser.go (\<open>valueStartOf\<close>), the unsigned
  shorts, longs and rational pairs that a byte sequence holds, in their order, and the
  rendering of a pair. \<open>hasSlashZero s\<close> says that \<open>s\<close> contains a slash followed by the
  digit zero; \<open>hexValue\<close> reads a lowercase hexadecimal string.

  \<open>parseEXIF_header\<close> and \<open>parseExif_header\<close> are the two decoders up to the offset of
  the main IFD, \<open>parseEXIF_tags\<close> and \<open>parseExif_tags\<close> up to the merged mapping: the
  text of \<^verbatim>\<open>parseEXIF\<close> and \<^verbatim>\<open>parseExif\<close> cut at these points (lemmas
  \<open>parseEXIF_staged\<close> and \<open>parseExif_staged\<close>).

  The fields of the 12-byte entry at an offset (\<open>entryTag\<close>, \<open>entryType\<close>,
  \<open>entryCount\<close>, \<open>entrySlot\<close>) and the 2-byte entry count of a directory
  (\<open>dirCount\<close>). \<open>valuePastEnd\<close> (parser.go) and \<open>tiffValuePastEnd\<close> (extractor.go)
  say that the entry at an offset has a known type and a value of more than 4 bytes, the
  per-type size times the count, that would end past the end of the buffer;
  \<open>tiffTypeSize\<close> is the factor by which each reader of extractor.go multiplies the
  count, and the product is asked to fit 32 bits, as the multiplication of the code is
  one of \<^verbatim>\<open>uint32\<close>. \<open>wrappedRational\<close> says of a type and a count that the type is
  rational or signed rational and the count, not zero, times 8 is 0 in 32 bits;
  \<open>wrappedAt\<close> says it of the entry at an offset.
\<close>

definition valueBytes :: "tiffData \<Rightarrow> uint32 \<Rightarrow> uint32 \<Rightarrow> byte list" where
  "valueBytes t sz valueOffset =
     (if sz \<le> 4 then bytes32 (order t) valueOffset
      else drop (unat valueOffset) (elems (data t)))"

fun shorts :: "byteorder \<Rightarrow> byte list \<Rightarrow> uint16 list" where
  "shorts ord (b0 # b1 # rest) = compose16 ord b0 b1 # shorts ord rest"
| "shorts ord rest = []"

fun longs :: "byteorder \<Rightarrow> byte list \<Rightarrow> uint32 list" where
  "longs ord (b0 # b1 # b2 # b3 # rest) = compose32 ord b0 b1 b2 b3 # longs ord rest"
| "longs ord rest = []"

fun rationals :: "byteorder \<Rightarrow> byte list \<Rightarrow> (uint32 \<times> uint32) list" where
  "rationals ord (b0 # b1 # b2 # b3 # b4 # b5 # b6 # b7 # rest) =
     (compose32 ord b0 b1 b2 b3, compose32 ord b4 b5 b6 b7) # rationals ord rest"
| "rationals ord rest = []"

definition renderRational :: "uint32 \<times> uint32 \<Rightarrow> string" where
  "renderRational p =
     (case p of (n, d) \<Rightarrow> if d = 0 then ''0'' else decimal (unat n) @ ''/'' @ decimal (unat d))"


definition valueStartOf :: "gslice \<Rightarrow> nat \<Rightarrow> byteorder \<Rightarrow> nat \<Rightarrow> nat \<Rightarrow> nat" where
  "valueStartOf d tiffStart ord valueOffset byteCount =
     (if byteCount > 4
      then tiffStart + unat (compose32 ord (elems d ! valueOffset) (elems d ! (valueOffset + 1))
                               (elems d ! (valueOffset + 2)) (elems d ! (valueOffset + 3)))
      else valueOffset)"

fun hexValue :: "string \<Rightarrow> nat \<Rightarrow> nat" where
  "hexValue [] acc = acc"
| "hexValue (c # cs) acc =
     hexValue cs (acc * 16 + (if code c \<le> 57 then code c - 48 else code c - 87))"

definition renderPair :: "bool \<Rightarrow> uint32 \<Rightarrow> uint32 \<Rightarrow> string" where
  "renderPair isSigned n d =
     (if isSigned then decimalSigned (sint n) @ ''/'' @ decimalSigned (sint d)
      else decimal (unat n) @ ''/'' @ decimal (unat d))"

definition parseEXIF_header :: "gslice \<Rightarrow> error + nat \<times> byteorder \<times> nat" where
  "parseEXIF_header d =
     andThen (findExifSegment d) (\<lambda>segmentStart.
     if slen d < segmentStart + 6 then Inl ErrInvalidExif
     else
       andThen (slice d segmentStart (segmentStart + 6)) (\<lambda>h.
       if goString (elems h) \<noteq> exifHeader then Inl ErrInvalidExif
       else
         let tiffStart = segmentStart + 6 in
         if slen d < tiffStart + 8 then Inl ErrInvalidExif
         else
           andThen (sliceFrom d tiffStart) (\<lambda>tb.
           andThen (byteOrder tb) (\<lambda>ord.
           andThen (sliceFrom d (tiffStart + 4)) (\<lambda>ob.
           andThen (Uint32 ord ob) (\<lambda>v.
             let ifdOffset = unat v in
             if ifdOffset \<le> 0 then Inl ErrInvalidExif
             else Inr (tiffStart, ord, tiffStart + ifdOffset)))))))"

definition parseExif_header :: "gslice \<Rightarrow> error + tiffData \<times> uint32" where
  "parseExif_header d =
     andThen (findExifBlock d) (\<lambda>exifBlock.
     if slen exifBlock < exifHeaderLength + 8 then Inl ExifBlockTooShort
     else
       andThen (sliceFrom exifBlock exifHeaderLength) (\<lambda>tiffBytes.
       andThen (parseByteOrder tiffBytes) (\<lambda>ord.
       andThen (slice tiffBytes 2 4) (\<lambda>mb.
       andThen (Uint16 ord mb) (\<lambda>magic.
       if magic \<noteq> tiffIdentifier then Inl InvalidTiffHeader
       else
         andThen (slice tiffBytes 4 8) (\<lambda>ob.
         andThen (Uint32 ord ob) (\<lambda>ifdOffset.
           Inr (\<lparr>order = ord, data = tiffBytes\<rparr>, ifdOffset))))))))"

definition parseEXIF_tags :: "gslice \<Rightarrow> error + (uint16 \<rightharpoonup> string)" where
  "parseEXIF_tags d =
     andThen (parseEXIF_header d) (\<lambda>h. case h of (tiffStart, ord, ifd0Offset) \<Rightarrow>
     andThen (parseIFD d tiffStart ifd0Offset ord) (\<lambda>r. case r of (tagValues, exifOffset) \<Rightarrow>
       mergeExifValues d tiffStart ord tagValues exifOffset))"

definition parseExif_tags :: "gslice \<Rightarrow> error + (uint16 \<rightharpoonup> tagValue)" where
  "parseExif_tags d =
     andThen (parseExif_header d) (\<lambda>h. case h of (tiff, ifdOffset) \<Rightarrow>
     andThen (tiffData_parseIFD tiff ifdOffset) (mergeExifIFD tiff))"

definition entryTag :: "byteorder \<Rightarrow> byte list \<Rightarrow> nat \<Rightarrow> uint16" where
  "entryTag ord bs eo = compose16 ord (bs ! eo) (bs ! (eo + 1))"

definition entryType :: "byteorder \<Rightarrow> byte list \<Rightarrow> nat \<Rightarrow> uint16" where
  "entryType ord bs eo = compose16 ord (bs ! (eo + 2)) (bs ! (eo + 3))"

definition entryCount :: "byteorder \<Rightarrow> byte list \<Rightarrow> nat \<Rightarrow> uint32" where
  "entryCount ord bs eo =
     compose32 ord (bs ! (eo + 4)) (bs ! (eo + 5)) (bs ! (eo + 6)) (bs ! (eo + 7))"

definition entrySlot :: "byteorder \<Rightarrow> byte list \<Rightarrow> nat \<Rightarrow> uint32" where
  "entrySlot ord bs eo =
     compose32 ord (bs ! (eo + 8)) (bs ! (eo + 9)) (bs ! (eo + 10)) (bs ! (eo + 11))"

definition valuePastEnd :: "gslice \<Rightarrow> nat \<Rightarrow> byteorder \<Rightarrow> nat \<Rightarrow> bool" where
  "valuePastEnd d tiffStart ord eo =
     (case typeSize (entryType ord (elems d) eo) of
        None \<Rightarrow> False
      | Some k \<Rightarrow>
          entryTag ord (elems d) eo \<noteq> ifdTagExifOffset
          \<and> 4 < unat (entryCount ord (elems d) eo) * k
          \<and> slen d < tiffStart + unat (entrySlot ord (elems d) eo)
                        + unat (entryCount ord (elems d) eo) * k)"

definition dirCount :: "byteorder \<Rightarrow> byte list \<Rightarrow> nat \<Rightarrow> nat" where
  "dirCount ord bs off = unat (compose16 ord (bs ! off) (bs ! (off + 1)))"

definition tiffTypeSize :: "uint16 \<Rightarrow> nat option" where
  "tiffTypeSize ty =
     (if ty = typeASCII \<or> ty = typeByte \<or> ty = typeUndefined then Some 1
      else if ty = typeShort then Some 2
      else if ty = typeLong \<or> ty = typeSLONG then Some 4
      else if ty = typeRational \<or> ty = typeSRational then Some 8
      else None)"

definition tiffValuePastEnd :: "tiffData \<Rightarrow> nat \<Rightarrow> bool" where
  "tiffValuePastEnd t eo =
     (case tiffTypeSize (entryType (order t) (elems (data t)) eo) of
        None \<Rightarrow> False
      | Some k \<Rightarrow>
          unat (entryCount (order t) (elems (data t)) eo) * k < 2 ^ 32
          \<and> 4 < unat (entryCount (order t) (elems (data t)) eo) * k
          \<and> slen (data t) < unat (entrySlot (order t) (elems (data t)) eo)
                               + unat (entryCount (order t) (elems (data t)) eo) * k)"

definition wrappedRational :: "uint16 \<Rightarrow> uint32 \<Rightarrow> bool" where
  "wrappedRational ty cnt =
     ((ty = typeRational \<or> ty = typeSRational) \<and> cnt \<noteq> 0 \<and> cnt * 8 = 0)"

definition wrappedAt :: "tiffData \<Rightarrow> nat \<Rightarrow> bool" where
  "wrappedAt t eo =
     wrappedRational (entryType (order t) (elems (data t)) eo)
       (entryCount (order t) (elems (data t)) eo)"

section \<open>Concrete buffers\<close>

text \<open>
  The JPEG file of the repository's test (\<^verbatim>\<open>buildExifJPEG\<close> with make \<^verbatim>\<open>TestMake\<close>): SOI,
  an APP1 segment of declared length 43 holding \<^verbatim>\<open>Exif\0\0\<close> and a little-endian TIFF
  of one out-of-line ASCII entry for tag 0x010F, then EOI.
\<close>

definition testJPEG :: "byte list" where
  "testJPEG =
     [0xFF, 0xD8, 0xFF, 0xE1, 0x00, 0x2B, 0x45, 0x78, 0x69, 0x66, 0x00, 0x00,
      0x49, 0x49, 0x2A, 0x00, 0x08, 0x00, 0x00, 0x00,
      0x01, 0x00,
      0x0F, 0x01, 0x02, 0x00, 0x09, 0x00, 0x00, 0x00, 0x1A, 0x00, 0x00, 0x00,
      0x00, 0x00, 0x00, 0x00,
      0x54, 0x65, 0x73, 0x74, 0x4D, 0x61, 0x6B, 0x65, 0x00,
      0xFF, 0xD9]"

text \<open>The same file with its first two bytes, the SOI marker, set to zero.\<close>

definition noSOI :: "byte list" where
  "noSOI = [0x00, 0x00] @ drop 2 testJPEG"

text \<open>The same file with the TIFF magic 0x002A (bytes 14 and 15) replaced by 0x002B.\<close>

definition badMagic :: "byte list" where
  "badMagic = take 14 testJPEG @ [0x2B, 0x00] @ drop 16 testJPEG"

text \<open>
  Three big-endian files of one entry each. \<open>byteEntry\<close>: tag 0x010F, type byte, count
  1, value 0x0A. \<open>twoShorts\<close>: tag 0x8827, type short, count 2, values 100 and 200
  inline. \<open>twoRationals\<close>: tag 0x829D, type rational, count 2, the pairs 1/0 and 3/4
  at offset 26 of the TIFF buffer.
\<close>

definition byteEntry :: "byte list" where
  "byteEntry =
     [0xFF, 0xD8, 0xFF, 0xE1, 0x00, 0x1E, 0x45, 0x78, 0x69, 0x66, 0x00, 0x00,
      0x4D, 0x4D, 0x00, 0x2A, 0x00, 0x00, 0x00, 0x08,
      0x00, 0x01,
      0x01, 0x0F, 0x00, 0x01, 0x00, 0x00, 0x00, 0x01, 0x0A, 0x00, 0x00, 0x00]"

definition twoShorts :: "byte list" where
  "twoShorts =
     [0xFF, 0xD8, 0xFF, 0xE1, 0x00, 0x1E, 0x45, 0x78, 0x69, 0x66, 0x00, 0x00,
      0x4D, 0x4D, 0x00, 0x2A, 0x00, 0x00, 0x00, 0x08,
      0x00, 0x01,
      0x88, 0x27, 0x00, 0x03, 0x00, 0x00, 0x00, 0x02, 0x00, 0x64, 0x00, 0xC8]"

definition twoRationals :: "byte list" where
  "twoRationals =
     [0xFF, 0xD8, 0xFF, 0xE1, 0x00, 0x32, 0x45, 0x78, 0x69, 0x66, 0x00, 0x00,
      0x4D, 0x4D, 0x00, 0x2A, 0x00, 0x00, 0x00, 0x08,
      0x00, 0x01,
      0x82, 0x9D, 0x00, 0x05, 0x00, 0x00, 0x00, 0x02, 0x00, 0x00, 0x00, 0x1A,
      0x00, 0x00, 0x00, 0x00,
      0x00, 0x00, 0x00, 0x01, 0x00, 0x00, 0x00, 0x00,
      0x00, 0x00, 0x00, 0x03, 0x00, 0x00, 0x00, 0x04]"

text \<open>
  \<open>subIFD\<close>: a big-endian file whose main IFD holds tag 0x010F (\<^verbatim>\<open>M\<close>), tag 0x0132
  (\<^verbatim>\<open>B\<close>) and the pointer 0x8769 to offset 50, and whose Exif sub-IFD at offset 50 holds
  tag 0x010F (\<^verbatim>\<open>S\<close>) and tag 0x9003 (\<^verbatim>\<open>A\<close>).
\<close>

definition subIFD :: "byte list" where
  "subIFD =
     [0xFF, 0xD8, 0xFF, 0xE1, 0x00, 0x58, 0x45, 0x78, 0x69, 0x66, 0x00, 0x00,
      0x4D, 0x4D, 0x00, 0x2A, 0x00, 0x00, 0x00, 0x08,
      0x00, 0x03,
      0x01, 0x0F, 0x00, 0x02, 0x00, 0x00, 0x00, 0x02, 0x4D, 0x00, 0x00, 0x00,
      0x01, 0x32, 0x00, 0x02, 0x00, 0x00, 0x00, 0x02, 0x42, 0x00, 0x00, 0x00,
      0x87, 0x69, 0x00, 0x04, 0x00, 0x00, 0x00, 0x01, 0x00, 0x00, 0x00, 0x32,
      0x00, 0x00, 0x00, 0x00,
      0x00, 0x02,
      0x01, 0x0F, 0x00, 0x02, 0x00, 0x00, 0x00, 0x02, 0x53, 0x00, 0x00, 0x00,
      0x90, 0x03, 0x00, 0x02, 0x00, 0x00, 0x00, 0x02, 0x41, 0x00, 0x00, 0x00,
      0x00, 0x00, 0x00, 0x00]"

text \<open>
  \<open>tableTooLong\<close>: the file of the test with the entry count of its directory set to 5.
  \<open>subPastEnd\<close>: a big-endian file whose main IFD holds tag 0x010F (\<^verbatim>\<open>M\<close>) and the
  pointer 0x8769 to offset 38, where the last two bytes of the buffer give an entry
  count of 65535. \<open>skipEntry\<close>: a big-endian file whose directory holds tag 0x010F as
  100 ASCII bytes at offset 1000, past the end, and tag 0x0110 (\<^verbatim>\<open>Z\<close>).
\<close>

definition tableTooLong :: "byte list" where
  "tableTooLong = take 20 testJPEG @ [0x05, 0x00] @ drop 22 testJPEG"

definition subPastEnd :: "byte list" where
  "subPastEnd =
     [0xFF, 0xD8, 0xFF, 0xE1, 0x00, 0x30, 0x45, 0x78, 0x69, 0x66, 0x00, 0x00,
      0x4D, 0x4D, 0x00, 0x2A, 0x00, 0x00, 0x00, 0x08,
      0x00, 0x02,
      0x01, 0x0F, 0x00, 0x02, 0x00, 0x00, 0x00, 0x02, 0x4D, 0x00, 0x00, 0x00,
      0x87, 0x69, 0x00, 0x04, 0x00, 0x00, 0x00, 0x01, 0x00, 0x00, 0x00, 0x26,
      0x00, 0x00, 0x00, 0x00,
      0xFF, 0xFF]"

definition skipEntry :: "byte list" where
  "skipEntry =
     [0xFF, 0xD8, 0xFF, 0xE1, 0x00, 0x2E, 0x45, 0x78, 0x69, 0x66, 0x00, 0x00,
      0x4D, 0x4D, 0x00, 0x2A, 0x00, 0x00, 0x00, 0x08,
      0x00, 0x02,
      0x01, 0x0F, 0x00, 0x02, 0x00, 0x00, 0x00, 0x64, 0x00, 0x00, 0x03, 0xE8,
      0x01, 0x10, 0x00, 0x02, 0x00, 0x00, 0x00, 0x02, 0x5A, 0x00, 0x00, 0x00,
      0x00, 0x00, 0x00, 0x00]"

text \<open>
  \<open>rationalCount\<close>: a big-endian file of one entry, tag 0x829A of type rational with
  count 0x20000000, so that the count times 8 is 0 in 32 bits.
\<close>

definition rationalCount :: "byte list" where
  "rationalCount =
     [0xFF, 0xD8, 0xFF, 0xE1, 0x00, 0x1E, 0x45, 0x78, 0x69, 0x66, 0x00, 0x00,
      0x4D, 0x4D, 0x00, 0x2A, 0x00, 0x00, 0x00, 0x08,
      0x00, 0x01,
      0x82, 0x9A, 0x00, 0x05, 0x20, 0x00, 0x00, 0x00, 0x00, 0x00, 0x00, 0x00]"

section \<open>Basic facts\<close>

lemma andThen_Inr [simp]: "andThen (Inr v) f = f v"
  by (simp add: andThen_def)

lemma andThen_Inl [simp]: "andThen (Inl e) f = Inl e"
  by (simp add: andThen_def)

lemma andThen_weak_cong: "r = r' \<Longrightarrow> andThen r f = andThen r' f"
  by simp

text \<open>
  The definitions that evaluate the decoders on a concrete buffer, for \<open>simp\<close> with the
  congruence rule above (a step is unfolded once the step before it has a value).
\<close>

lemmas slice_defs = fromBytes_def slen_def scap_def index_def slice_def sliceTo_def
  sliceFrom_def Uint16_def Uint32_def PutUint32_def compose16_def compose32_def bytes32_def
  makeBytes_def goString_def char_of_def exifHeader_def bit_Suc_0_iff

lemmas extractor_defs = findExifBlock_def findExifBlock_loop.simps parseExif_def
  parseByteOrder_def tiffData_parseIFD_def tiffData_parseIFD_entry_def readValue_def
  readASCII_def readData_def readRational_def readShort_def readLong_def readSignedLong_def
  readByte_def mergeExifIFD_def buildMetadata_def lookupValue_def reformatDateTime_def

lemmas parser_defs = findExifSegment_def findExifSegment_loop.simps parseEXIF_def
  byteOrder_def parseIFD_def parseIFD_entry_def readIFDValue_def typeSize_def
  formatShorts_def formatShorts_loop.simps formatLongs_def formatLongs_loop.simps
  formatRationals_def formatRationals_loop.simps mergeExifValues_def buildSummary_def
  lookupString_def trimRightNul_def

lemmas buffer_defs = testJPEG_def noSOI_def badMagic_def byteEntry_def twoRationals_def twoShorts_def subIFD_def skipEntry_def subPastEnd_def tableTooLong_def rationalCount_def

lemma slice_ok:
  "lo \<le> hi \<Longrightarrow> hi \<le> slen s \<Longrightarrow>
   slice s lo hi =
     Inr \<lparr>elems = take (hi - lo) (drop lo (elems s)), spare = drop hi (elems s) @ spare s\<rparr>"
  by (simp add: slice_def scap_def slen_def)

lemma sliceFrom_ok:
  "lo \<le> slen s \<Longrightarrow> sliceFrom s lo = Inr \<lparr>elems = drop lo (elems s), spare = spare s\<rparr>"
  by (simp add: sliceFrom_def slice_def scap_def slen_def)

lemma Uint16_ok:
  "2 \<le> slen b \<Longrightarrow> Uint16 ord b = Inr (compose16 ord (elems b ! 0) (elems b ! 1))"
  by (simp add: Uint16_def)

lemma Uint32_ok:
  "4 \<le> slen b \<Longrightarrow>
   Uint32 ord b = Inr (compose32 ord (elems b ! 0) (elems b ! 1) (elems b ! 2) (elems b ! 3))"
  by (simp add: Uint32_def)

lemma bytes32_LittleEndian:
  "bytes32 LittleEndian (compose32 LittleEndian b0 b1 b2 b3) = [b0, b1, b2, b3]"
  unfolding bytes32_def compose32_def
  by (simp, intro conjI; rule bit_word_eqI; auto simp: bit_simps dest: bit_imp_le_length)

lemma bytes32_BigEndian:
  "bytes32 BigEndian (compose32 BigEndian b0 b1 b2 b3) = [b0, b1, b2, b3]"
  unfolding bytes32_def compose32_def
  by (simp, intro conjI; rule bit_word_eqI; auto simp: bit_simps dest: bit_imp_le_length)

lemma bytes32_compose32: "bytes32 ord (compose32 ord b0 b1 b2 b3) = [b0, b1, b2, b3]"
  by (cases ord) (simp_all only: bytes32_LittleEndian bytes32_BigEndian)

lemma length_bytes32 [simp]: "length (bytes32 ord v) = 4"
  by (cases ord) (simp_all add: bytes32_def)

lemma bytes32_not_Nil [simp]: "bytes32 ord v \<noteq> []"
  by (cases ord) (simp_all add: bytes32_def)

lemma readData_eq:
  "readData t sz off =
     (if sz \<le> 4
      then Inr (Some \<lparr>elems = take (unat sz) (bytes32 (order t) off),
                      spare = drop (unat sz) (bytes32 (order t) off)\<rparr>)
      else if unat off + unat sz > slen (data t) then Inr None
      else Inr (Some \<lparr>elems = take (unat sz) (drop (unat off) (elems (data t))),
                      spare = drop (unat off + unat sz) (elems (data t)) @ spare (data t)\<rparr>))"
proof (cases "sz \<le> 4")
  case True
  then have "unat sz \<le> 4" by (simp add: word_le_nat_alt)
  with True show ?thesis
    by (simp add: readData_def PutUint32_def makeBytes_def slen_def sliceTo_def slice_def scap_def)
next
  case False
  then show ?thesis
    by (simp add: readData_def slice_ok Let_def)
qed

lemma readByte_eq:
  "readByte t count off =
     (if count = 0 \<or> (4 < count \<and> unat off + unat count > slen (data t)) then Inr None
      else Inr (Some (hexadecimal (unat (valueBytes t count off ! 0)))))"
proof (cases "count = 0")
  case True
  then show ?thesis by (simp add: readByte_def)
next
  case False
  then have pos: "0 < unat count" by (simp add: unat_gt_0)
  show ?thesis
  proof (cases "count \<le> 4")
    case True
    then have "\<not> 4 < count" by (simp add: not_less)
    with True False pos show ?thesis
      by (simp add: readByte_def readData_eq index_def slen_def valueBytes_def)
  next
    case c: False
    with False pos show ?thesis
      by (auto simp: readByte_def readData_eq index_def slen_def valueBytes_def not_le)
  qed
qed

lemma typeSize_Undefined: "typeSize typeUndefined = None"
  by (simp add: typeSize_def)

lemma readIFDValue_Undefined: "readIFDValue d tiffStart typeUndefined count valueOffset ord = Inr None"
  by (simp add: readIFDValue_def typeSize_def)

lemma readIFDValue_Byte:
  "readIFDValue d tiffStart typeByte count valueOffset ord =
     (if count = 1 \<and> valueOffset + 1 \<le> slen d
      then Inr (Some (decimal (unat (elems d ! valueOffset)))) else Inr None)"
proof (cases "count = 1")
  case True
  then show ?thesis
    by (simp add: readIFDValue_def typeSize_def slice_ok index_def slen_def)
next
  case False
  show ?thesis
  proof (cases "unat count > 4")
    case True
    then show ?thesis using False
      by (simp add: readIFDValue_def typeSize_def slice_ok sliceFrom_ok Uint32_ok slen_def Let_def)
  next
    case f: False
    then show ?thesis using False
      by (simp add: readIFDValue_def typeSize_def slice_ok Let_def)
  qed
qed

lemma digit_code_all:
  "list_all (\<lambda>k. code (digit k) = (if k < 10 then 48 + k else 87 + k)) [0..<16]"
  by code_simp

lemma digit_code: "n < 16 \<Longrightarrow> code (digit n) = (if n < 10 then 48 + n else 87 + n)"
  using digit_code_all by (simp add: list_all_iff del: upt_rec_numeral)

lemma digit_lowercase: "n < 16 \<Longrightarrow> digit n \<in> set ''0123456789abcdef''"
  unfolding digit_def by (rule nth_mem) simp

lemma digitsValue_append: "digitsValue (xs @ ys) acc = digitsValue ys (digitsValue xs acc)"
  by (induction xs arbitrary: acc) simp_all

lemma hexValue_append: "hexValue (xs @ ys) acc = hexValue ys (hexValue xs acc)"
  by (induction xs arbitrary: acc) simp_all

lemma digitsValue_decimal: "digitsValue (decimal n) 0 = n"
proof (induction n rule: decimal.induct)
  case (1 n)
  show ?case
  proof (cases "n < 10")
    case True
    then show ?thesis by (subst decimal.simps) (simp add: digit_code)
  next
    case False
    then show ?thesis
      using 1 by (subst decimal.simps) (simp add: digitsValue_append digit_code)
  qed
qed

lemma hexValue_hexadecimal: "hexValue (hexadecimal n) 0 = n"
proof (induction n rule: hexadecimal.induct)
  case (1 n)
  show ?case
  proof (cases "n < 16")
    case True
    then show ?thesis by (subst hexadecimal.simps) (simp add: digit_code)
  next
    case False
    then show ?thesis
      using 1 by (subst hexadecimal.simps) (simp add: hexValue_append digit_code)
  qed
qed

lemma hexadecimal_lowercase: "set (hexadecimal n) \<subseteq> set ''0123456789abcdef''"
proof (induction n rule: hexadecimal.induct)
  case (1 n)
  show ?case
  proof (cases "n < 16")
    case True
    then show ?thesis
      using digit_lowercase [of n] by (subst hexadecimal.simps) simp
  next
    case False
    then show ?thesis
      using 1 digit_lowercase [of "n mod 16"] by (subst hexadecimal.simps) simp
  qed
qed

lemma drop_two: "i + 2 \<le> length e \<Longrightarrow> drop i e = e ! i # e ! (i + 1) # drop (i + 2) e"
  by (metis Cons_nth_drop_Suc Suc_eq_plus1 add_2_eq_Suc' add_Suc_right less_add_Suc1 less_le_trans lessI less_imp_le_nat  nat_less_le not_less_eq_eq)

lemma formatShorts_loop_eq:
  "formatShorts_loop v ord i parts =
     Inr (parts @ map (\<lambda>x. decimal (unat x)) (shorts ord (drop i (elems v))))"
proof (induction v ord i parts rule: formatShorts_loop.induct)
  case (1 d ord i parts)
  show ?case
  proof (cases "i + 2 \<le> slen d")
    case True
    then have dr: "drop i (elems d) = elems d ! i # elems d ! (i + 1) # drop (i + 2) (elems d)"
      by (simp add: drop_two slen_def)
    have sf: "sliceFrom d i = Inr \<lparr>elems = drop i (elems d), spare = spare d\<rparr>"
      using True by (simp add: sliceFrom_ok)
    have u: "Uint16 ord \<lparr>elems = drop i (elems d), spare = spare d\<rparr>
               = Inr (compose16 ord (elems d ! i) (elems d ! (i + 1)))"
      using True by (simp add: Uint16_def slen_def)
    have "formatShorts_loop d ord i parts =
            formatShorts_loop d ord (i + 2)
              (parts @ [decimal (unat (compose16 ord (elems d ! i) (elems d ! (i + 1))))])"
      using True by (subst formatShorts_loop.simps) (simp add: sf u)
    then show ?thesis
      using "1.IH" [OF True sf u] by (simp add: dr)
  next
    case False
    then have "length (drop i (elems d)) < 2" by (simp add: slen_def)
    then have "shorts ord (drop i (elems d)) = []"
      by (cases "drop i (elems d)"; cases "tl (drop i (elems d))") auto
    with False show ?thesis
      by (subst formatShorts_loop.simps) simp
  qed
qed

lemma formatShorts_eq:
  "formatShorts v ord = Inr (stringsJoin (map (\<lambda>x. decimal (unat x)) (shorts ord (elems v))) '','')"
  by (simp add: formatShorts_def formatShorts_loop_eq)

lemma drop_four:
  "i + 4 \<le> length e \<Longrightarrow>
   drop i e = e ! i # e ! (i + 1) # e ! (i + 2) # e ! (i + 3) # drop (i + 4) e"
  using drop_two [of i e] drop_two [of "i + 2" e] by (simp add: numeral_eq_Suc)

lemma longs_short: "length xs < 4 \<Longrightarrow> longs ord xs = []"
  by (induction ord xs rule: longs.induct) auto

lemma formatLongs_loop_eq:
  "formatLongs_loop v ord i parts =
     Inr (parts @ map (\<lambda>x. decimal (unat x)) (longs ord (drop i (elems v))))"
proof (induction v ord i parts rule: formatLongs_loop.induct)
  case (1 d ord i parts)
  show ?case
  proof (cases "i + 4 \<le> slen d")
    case True
    then have dr: "drop i (elems d) =
        elems d ! i # elems d ! (i + 1) # elems d ! (i + 2) # elems d ! (i + 3)
          # drop (i + 4) (elems d)"
      by (simp add: drop_four slen_def)
    have sf: "sliceFrom d i = Inr \<lparr>elems = drop i (elems d), spare = spare d\<rparr>"
      using True by (simp add: sliceFrom_ok)
    have u: "Uint32 ord \<lparr>elems = drop i (elems d), spare = spare d\<rparr>
               = Inr (compose32 ord (elems d ! i) (elems d ! (i + 1)) (elems d ! (i + 2))
                        (elems d ! (i + 3)))"
      using True by (simp add: Uint32_def slen_def add.commute)
    have "formatLongs_loop d ord i parts =
            formatLongs_loop d ord (i + 4)
              (parts @ [decimal (unat (compose32 ord (elems d ! i) (elems d ! (i + 1))
                                         (elems d ! (i + 2)) (elems d ! (i + 3))))])"
      using True by (subst formatLongs_loop.simps) (simp add: sf u)
    then show ?thesis
      using "1.IH" [OF True sf u] by (simp add: dr)
  next
    case False
    then have "length (drop i (elems d)) < 4" by (simp add: slen_def)
    then have "longs ord (drop i (elems d)) = []"
      by (rule longs_short)
    with False show ?thesis
      by (subst formatLongs_loop.simps) simp
  qed
qed

lemma formatLongs_eq:
  "formatLongs v ord = Inr (stringsJoin (map (\<lambda>x. decimal (unat x)) (longs ord (elems v))) '','')"
  by (simp add: formatLongs_def formatLongs_loop_eq)

lemma rationals_short: "length xs < 8 \<Longrightarrow> rationals ord xs = []"
  by (induction ord xs rule: rationals.induct) auto

lemma drop_eight:
  "i + 8 \<le> length e \<Longrightarrow>
   drop i e = e ! i # e ! (i + 1) # e ! (i + 2) # e ! (i + 3) # e ! (i + 4) # e ! (i + 5)
                # e ! (i + 6) # e ! (i + 7) # drop (i + 8) e"
  using drop_four [of i e] drop_four [of "i + 4" e] by (simp add: numeral_eq_Suc)

lemma formatRationals_loop_eq:
  "formatRationals_loop v ord i parts =
     Inr (parts @ map renderRational (rationals ord (drop i (elems v))))"
proof (induction v ord i parts rule: formatRationals_loop.induct)
  case (1 d ord i parts)
  show ?case
  proof (cases "i + 8 \<le> slen d")
    case True
    let ?n = "compose32 ord (elems d ! i) (elems d ! (i + 1)) (elems d ! (i + 2))
                (elems d ! (i + 3))"
    let ?d = "compose32 ord (elems d ! (i + 4)) (elems d ! (i + 5)) (elems d ! (i + 6))
                (elems d ! (i + 7))"
    have dr: "rationals ord (drop i (elems d)) = (?n, ?d) # rationals ord (drop (i + 8) (elems d))"
      using True by (subst drop_eight) (simp_all add: slen_def)
    have sf: "sliceFrom d i = Inr \<lparr>elems = drop i (elems d), spare = spare d\<rparr>"
      using True by (simp add: sliceFrom_ok)
    have u: "Uint32 ord \<lparr>elems = drop i (elems d), spare = spare d\<rparr> = Inr ?n"
      using True by (simp add: Uint32_def slen_def add.commute)
    have sf': "sliceFrom d (i + 4) = Inr \<lparr>elems = drop (i + 4) (elems d), spare = spare d\<rparr>"
      using True by (simp add: sliceFrom_ok)
    have u': "Uint32 ord \<lparr>elems = drop (i + 4) (elems d), spare = spare d\<rparr> = Inr ?d"
      using True by (simp add: Uint32_def slen_def add.commute add.assoc)
    have "formatRationals_loop d ord i parts =
            formatRationals_loop d ord (i + 8) (parts @ [renderRational (?n, ?d)])"
      using True by (subst formatRationals_loop.simps) (simp add: sf u sf' u' renderRational_def)
    moreover have "formatRationals_loop d ord (i + 8) (parts @ [renderRational (?n, ?d)]) =
        Inr ((parts @ [renderRational (?n, ?d)])
               @ map renderRational (rationals ord (drop (i + 8) (elems d))))"
      using "1.IH"(1) [OF True sf u sf' u'] "1.IH"(2) [OF True sf u sf' u']
      by (cases "?d = 0") (simp_all add: renderRational_def)
    ultimately show ?thesis
      by (simp add: dr)
  next
    case False
    then have "length (drop i (elems d)) < 8" by (simp add: slen_def)
    then have "rationals ord (drop i (elems d)) = []"
      by (rule rationals_short)
    with False show ?thesis
      by (subst formatRationals_loop.simps) simp
  qed
qed

lemma formatRationals_eq:
  "formatRationals v ord = Inr (stringsJoin (map renderRational (rationals ord (elems v))) '','')"
  by (simp add: formatRationals_def formatRationals_loop_eq)

lemma shorts_two: "length xs = 2 \<Longrightarrow> shorts ord xs = [compose16 ord (xs ! 0) (xs ! 1)]"
  by (cases xs; cases "tl xs") auto

lemma longs_four:
  "length xs = 4 \<Longrightarrow> longs ord xs = [compose32 ord (xs ! 0) (xs ! 1) (xs ! 2) (xs ! 3)]"
  by (induction ord xs rule: longs.induct) (auto simp: numeral_eq_Suc)

lemma Uint32_sliceFrom:
  "vo + 4 \<le> slen d \<Longrightarrow>
   andThen (sliceFrom d vo) (\<lambda>b. andThen (Uint32 ord b) f) =
     f (compose32 ord (elems d ! vo) (elems d ! (vo + 1)) (elems d ! (vo + 2)) (elems d ! (vo + 3)))"
  by (auto simp: sliceFrom_ok Uint32_def slen_def add.commute)

lemma Uint16_sliceFrom:
  "vo + 2 \<le> slen d \<Longrightarrow>
   andThen (sliceFrom d vo) (\<lambda>b. andThen (Uint16 ord b) f) =
     f (compose16 ord (elems d ! vo) (elems d ! (vo + 1)))"
  by (auto simp: sliceFrom_ok Uint16_def slen_def add.commute)

lemma readIFDValue_Short:
  "readIFDValue d ts typeShort count vo ord =
     (if (4 < unat count * 2 \<and> slen d < vo + 4)
         \<or> slen d < valueStartOf d ts ord vo (unat count * 2) + unat count * 2
      then Inr None
      else Inr (Some (stringsJoin
             (map (\<lambda>x. decimal (unat x))
                (shorts ord (take (unat count * 2)
                   (drop (valueStartOf d ts ord vo (unat count * 2)) (elems d))))) '','')))"
proof (cases "(4 < unat count * 2 \<and> slen d < vo + 4)
         \<or> slen d < valueStartOf d ts ord vo (unat count * 2) + unat count * 2")
  case True
  then show ?thesis
    by (auto simp: readIFDValue_def typeSize_def valueStartOf_def Let_def Uint32_sliceFrom)
next
  case False
  let ?vs = "valueStartOf d ts ord vo (unat count * 2)"
  have st: "(if 4 < unat count * 2
             then if slen d < vo + 4 then Inr None
                  else andThen (sliceFrom d vo) (\<lambda>b. andThen (Uint32 ord b)
                         (\<lambda>v. Inr (Some (ts + unat v))))
             else Inr (Some vo)) = Inr (Some ?vs)"
    using False by (auto simp: valueStartOf_def Uint32_sliceFrom)
  have sl: "slice d ?vs (?vs + unat count * 2) =
      Inr \<lparr>elems = take (unat count * 2) (drop ?vs (elems d)),
           spare = drop (?vs + unat count * 2) (elems d) @ spare d\<rparr>"
    using False by (simp add: slice_ok)
  show ?thesis
  proof (cases "count = 1")
    case True
    with False have "length (take 2 (drop ?vs (elems d))) = 2"
      by (simp add: slen_def)
    then show ?thesis
      using False True st sl
      by (simp add: readIFDValue_def typeSize_def Let_def Uint16_def slen_def shorts_two)
  next
    case c: False
    then show ?thesis
      using False st sl
      by (simp add: readIFDValue_def typeSize_def Let_def formatShorts_eq)
  qed
qed

lemma readIFDValue_Long:
  "readIFDValue d ts typeLong count vo ord =
     (if (4 < unat count * 4 \<and> slen d < vo + 4)
         \<or> slen d < valueStartOf d ts ord vo (unat count * 4) + unat count * 4
      then Inr None
      else Inr (Some (stringsJoin
             (map (\<lambda>x. decimal (unat x))
                (longs ord (take (unat count * 4)
                   (drop (valueStartOf d ts ord vo (unat count * 4)) (elems d))))) '','')))"
proof (cases "(4 < unat count * 4 \<and> slen d < vo + 4)
         \<or> slen d < valueStartOf d ts ord vo (unat count * 4) + unat count * 4")
  case True
  then show ?thesis
    by (auto simp: readIFDValue_def typeSize_def valueStartOf_def Let_def Uint32_sliceFrom)
next
  case False
  let ?vs = "valueStartOf d ts ord vo (unat count * 4)"
  have st: "(if 4 < unat count * 4
             then if slen d < vo + 4 then Inr None
                  else andThen (sliceFrom d vo) (\<lambda>b. andThen (Uint32 ord b)
                         (\<lambda>v. Inr (Some (ts + unat v))))
             else Inr (Some vo)) = Inr (Some ?vs)"
    using False by (auto simp: valueStartOf_def Uint32_sliceFrom)
  have sl: "slice d ?vs (?vs + unat count * 4) =
      Inr \<lparr>elems = take (unat count * 4) (drop ?vs (elems d)),
           spare = drop (?vs + unat count * 4) (elems d) @ spare d\<rparr>"
    using False by (simp add: slice_ok)
  show ?thesis
  proof (cases "count = 1")
    case True
    with False have "length (take 4 (drop ?vs (elems d))) = 4"
      by (simp add: slen_def)
    then show ?thesis
      using False True st sl
      by (simp add: readIFDValue_def typeSize_def Let_def Uint32_def slen_def longs_four)
  next
    case c: False
    then show ?thesis
      using False st sl
      by (simp add: readIFDValue_def typeSize_def Let_def formatLongs_eq)
  qed
qed

lemma readIFDValue_Rational:
  "readIFDValue d ts typeRational count vo ord =
     (if (4 < unat count * 4 \<and> slen d < vo + 4)
         \<or> slen d < valueStartOf d ts ord vo (unat count * 4) + unat count * 4
      then Inr None
      else Inr (Some (stringsJoin
             (map renderRational
                (rationals ord (take (unat count * 4)
                   (drop (valueStartOf d ts ord vo (unat count * 4)) (elems d))))) '','')))"
proof (cases "(4 < unat count * 4 \<and> slen d < vo + 4)
         \<or> slen d < valueStartOf d ts ord vo (unat count * 4) + unat count * 4")
  case True
  then show ?thesis
    by (auto simp: readIFDValue_def typeSize_def valueStartOf_def Let_def Uint32_sliceFrom)
next
  case False
  let ?vs = "valueStartOf d ts ord vo (unat count * 4)"
  have st: "(if 4 < unat count * 4
             then if slen d < vo + 4 then Inr None
                  else andThen (sliceFrom d vo) (\<lambda>b. andThen (Uint32 ord b)
                         (\<lambda>v. Inr (Some (ts + unat v))))
             else Inr (Some vo)) = Inr (Some ?vs)"
    using False by (auto simp: valueStartOf_def Uint32_sliceFrom)
  have sl: "slice d ?vs (?vs + unat count * 4) =
      Inr \<lparr>elems = take (unat count * 4) (drop ?vs (elems d)),
           spare = drop (?vs + unat count * 4) (elems d) @ spare d\<rparr>"
    using False by (simp add: slice_ok)
  show ?thesis
    using False st sl
    by (simp add: readIFDValue_def typeSize_def Let_def formatRationals_eq)
qed

lemma readShort_eq:
  "readShort t count off =
     (if count = 0 \<or> (4 < count * 2 \<and> slen (data t) < unat off + unat (count * 2))
      then Inr None
      else Inr (Some (decimal (unat (compose16 (order t) (valueBytes t (count * 2) off ! 0)
                                       (valueBytes t (count * 2) off ! 1))))))"
proof (cases "count * 2 \<le> 4")
  case True
  then have n: "\<not> 4 < count * 2" by (simp add: not_less)
  from True have "unat (count * 2) \<le> 4" by (simp add: word_le_nat_alt)
  then show ?thesis
    using True n
    by (simp add: readShort_def readData_eq sliceTo_def slice_def scap_def Uint16_def slen_def
        valueBytes_def)
next
  case False
  then have g: "4 < count * 2" by (simp add: not_le)
  then have "4 < unat (count * 2)" by (simp add: word_less_nat_alt)
  then show ?thesis
    using False g
    by (auto simp: readShort_def readData_eq sliceTo_def slice_def scap_def Uint16_def slen_def
        valueBytes_def)
qed

lemma readLong_eq:
  "readLong t count off =
     (if count = 0 \<or> (4 < count * 4 \<and> slen (data t) < unat off + unat (count * 4))
      then Inr None
      else Inr (Some (decimal (unat (compose32 (order t) (valueBytes t (count * 4) off ! 0)
                  (valueBytes t (count * 4) off ! 1) (valueBytes t (count * 4) off ! 2)
                  (valueBytes t (count * 4) off ! 3))))))"
proof (cases "count * 4 \<le> 4")
  case True
  then have n: "\<not> 4 < count * 4" by (simp add: not_less)
  from True have "unat (count * 4) \<le> 4" by (simp add: word_le_nat_alt)
  then show ?thesis
    using True n
    by (simp add: readLong_def readData_eq sliceTo_def slice_def scap_def Uint32_def slen_def
        valueBytes_def)
next
  case False
  then have g: "4 < count * 4" by (simp add: not_le)
  then have "4 < unat (count * 4)" by (simp add: word_less_nat_alt)
  then show ?thesis
    using False g
    by (auto simp: readLong_def readData_eq sliceTo_def slice_def scap_def Uint32_def slen_def
        valueBytes_def)
qed

lemma unat_times_8: "unat (c * 8 :: uint32) mod 8 = 0"
proof -
  have "unat (c * 8) = unat c * 8 mod 2 ^ 32"
    by (simp add: unat_word_ariths)
  moreover have "(8::nat) dvd 2 ^ 32" by simp
  ultimately have "unat (c * 8) mod 8 = unat c * 8 mod 8"
    by (simp only: mod_mod_cancel)
  then show ?thesis by simp
qed

lemma times_8_small: "(c * 8 :: uint32) \<le> 4 \<longleftrightarrow> c * 8 = 0"
proof
  assume "c * 8 \<le> 4"
  then have "unat (c * 8) \<le> 4" by (simp add: word_le_nat_alt)
  moreover have "8 dvd unat (c * 8)"
    using unat_times_8 [of c] by (simp add: dvd_eq_mod_eq_0)
  ultimately have "unat (c * 8) = 0"
    by (auto elim!: dvdE)
  then show "c * 8 = 0" by (simp add: unat_eq_0)
qed simp

lemma times_8_large: "\<not> (c * 8 :: uint32) \<le> 4 \<Longrightarrow> 8 \<le> unat (c * 8)"
proof -
  assume "\<not> c * 8 \<le> 4"
  then have "4 < unat (c * 8)" by (simp add: word_le_nat_alt)
  moreover have "8 dvd unat (c * 8)"
    using unat_times_8 [of c] by (simp add: dvd_eq_mod_eq_0)
  ultimately show ?thesis
    by (auto elim!: dvdE)
qed

lemma sint_eq_0: "sint (w :: uint32) = 0 \<longleftrightarrow> w = 0"
  by (simp add: signed_eq_0_iff)

lemma take_nths: "n \<le> length v \<Longrightarrow> take n v = map (\<lambda>i. v ! i) [0..<n]"
  by (auto simp: list_eq_iff_nth_eq)

lemma take_eight:
  "8 \<le> length v \<Longrightarrow> take 8 v = [v ! 0, v ! 1, v ! 2, v ! 3, v ! 4, v ! 5, v ! 6, v ! 7]"
  using take_nths [of 8 v] by (simp add: numeral_eq_Suc)

lemma readRational_eq:
  "readRational t count off sg =
     (if count = 0 then Inr None
      else if count * 8 = 0 then Inl Panic
      else if slen (data t) < unat off + unat (count * 8) then Inr None
      else case rationals (order t) (take 8 (drop (unat off) (elems (data t)))) of
             [] \<Rightarrow> Inr None
           | (n, d) # rest \<Rightarrow> if d = 0 then Inr None else Inr (Some (renderPair sg n d)))"
proof (cases "count = 0")
  case True
  then show ?thesis by (simp add: readRational_def)
next
  case nz: False
  show ?thesis
  proof (cases "count * 8 \<le> 4")
    case True
    then have z: "count * 8 = 0" by (simp add: times_8_small)
    have "slice \<lparr>elems = [], spare = bytes32 (order t) off\<rparr> 0 4
            = Inr \<lparr>elems = bytes32 (order t) off, spare = []\<rparr>"
      by (simp add: slice_def scap_def)
    moreover have "slice \<lparr>elems = [], spare = bytes32 (order t) off\<rparr> 4 8 = Inl Panic"
      by (simp add: slice_def scap_def)
    ultimately show ?thesis
      using nz z by (simp add: readRational_def readData_eq Uint32_def slen_def)
  next
    case False
    then have nz8: "count * 8 \<noteq> 0" by (simp add: times_8_small)
    from False have big: "8 \<le> unat (count * 8)" by (rule times_8_large)
    show ?thesis
    proof (cases "slen (data t) < unat off + unat (count * 8)")
      case True
      then show ?thesis
        using nz nz8 False by (simp add: readRational_def readData_eq)
    next
      case inr: False
      define v where "v = take (unat (count * 8)) (drop (unat off) (elems (data t)))"
      define sp where "sp = drop (unat off + unat (count * 8)) (elems (data t)) @ spare (data t)"
      have lv: "length v = unat (count * 8)"
        using inr by (simp add: v_def slen_def)
      then have l8: "8 \<le> length v" using big by simp
      have rd: "readData t (count * 8) off = Inr (Some \<lparr>elems = v, spare = sp\<rparr>)"
        using False inr by (simp add: readData_eq v_def sp_def)
      have s1: "slice \<lparr>elems = v, spare = sp\<rparr> 0 4 = Inr \<lparr>elems = take 4 v, spare = drop 4 v @ sp\<rparr>"
        using l8 by (simp add: slice_ok slen_def)
      have s2: "slice \<lparr>elems = v, spare = sp\<rparr> 4 8 =
                  Inr \<lparr>elems = take 4 (drop 4 v), spare = drop 8 v @ sp\<rparr>"
        using l8 by (simp add: slice_ok slen_def)
      have u1: "Uint32 (order t) \<lparr>elems = take 4 v, spare = drop 4 v @ sp\<rparr>
                  = Inr (compose32 (order t) (v ! 0) (v ! 1) (v ! 2) (v ! 3))"
        using l8 by (simp add: Uint32_def slen_def)
      have u2: "Uint32 (order t) \<lparr>elems = take 4 (drop 4 v), spare = drop 8 v @ sp\<rparr>
                  = Inr (compose32 (order t) (v ! 4) (v ! 5) (v ! 6) (v ! 7))"
        using l8 by (simp add: Uint32_def slen_def)
      have "take 8 (drop (unat off) (elems (data t))) = take 8 v"
        using big by (simp add: v_def min_def)
      also have "\<dots> = [v ! 0, v ! 1, v ! 2, v ! 3, v ! 4, v ! 5, v ! 6, v ! 7]"
        using l8 by (rule take_eight)
      finally have dr: "take 8 (drop (unat off) (elems (data t)))
          = [v ! 0, v ! 1, v ! 2, v ! 3, v ! 4, v ! 5, v ! 6, v ! 7]" .
      show ?thesis
        unfolding dr
        using nz nz8 inr
        by (simp add: readRational_def rd s1 s2 u1 u2 renderPair_def sint_eq_0)
    qed
  qed
qed

lemma decimal_not_Nil [simp]: "decimal n \<noteq> []"
  by (subst decimal.simps) simp











lemma decimalSigned_not_Nil [simp]: "decimalSigned i \<noteq> []"
  by (simp add: decimalSigned_def)





lemma length_shorts: "length (shorts ord xs) = length xs div 2"
  by (induction ord xs rule: shorts.induct) auto

lemma length_longs: "length (longs ord xs) = length xs div 4"
  by (induction ord xs rule: longs.induct) auto

lemma andThen_assoc: "andThen (andThen r f) g = andThen r (\<lambda>x. andThen (f x) g)"
  by (cases r) simp_all

lemma andThen_if: "andThen (if c then a else b) g = (if c then andThen a g else andThen b g)"
  by simp

lemma parseEXIF_staged:
  "parseEXIF d =
     andThen (parseEXIF_header d) (\<lambda>h. case h of (tiffStart, ord, ifd0Offset) \<Rightarrow>
     andThen (parseIFD d tiffStart ifd0Offset ord) (\<lambda>r. case r of (tagValues, exifOffset) \<Rightarrow>
     andThen (mergeExifValues d tiffStart ord tagValues exifOffset) (\<lambda>merged.
       Inr (buildSummary merged))))"
  unfolding parseEXIF_def parseEXIF_header_def
  by (simp add: andThen_assoc andThen_if Let_def cong: andThen_cong if_cong)

lemma parseExif_staged:
  "parseExif d =
     andThen (parseExif_header d) (\<lambda>h. case h of (tiff, ifdOffset) \<Rightarrow>
     andThen (tiffData_parseIFD tiff ifdOffset) (\<lambda>tags.
     andThen (mergeExifIFD tiff tags) (\<lambda>merged.
       Inr (buildMetadata merged))))"
  unfolding parseExif_def parseExif_header_def
  by (simp add: andThen_assoc andThen_if Let_def cong: andThen_cong if_cong)

lemmas stage_defs = parseEXIF_header_def parseExif_header_def parseEXIF_tags_def parseExif_tags_def
lemmas parseUint32_defs = parseUint32_def spaceRune_def code_def
lemmas timeParse_defs = timeParse_def isDigit_def

lemmas eval_defs = slice_defs stage_defs extractor_defs parser_defs parseUint32_defs
  timeParse_defs decimal.simps hexadecimal.simps digit_def upt_conv_Cons
  entryTag_def entryType_def entryCount_def entrySlot_def dirCount_def valuePastEnd_def
  tiffValuePastEnd_def tiffTypeSize_def

lemma parseIFD_entry_eq:
  assumes "eo + 12 \<le> slen d"
  shows "parseIFD_entry d ts ord eo (values, x) =
     (if entryTag ord (elems d) eo = ifdTagExifOffset then
        (if entryType ord (elems d) eo \<noteq> typeLong \<or> entryCount ord (elems d) eo \<noteq> 1
         then Inr (values, x)
         else Inr (values, unat (entrySlot ord (elems d) eo)))
      else
        andThen (readIFDValue d ts (entryType ord (elems d) eo) (entryCount ord (elems d) eo)
                   (eo + 8) ord) (\<lambda>r.
          case r of
            None \<Rightarrow> Inr (values, x)
          | Some v \<Rightarrow> Inr (values(entryTag ord (elems d) eo \<mapsto> v), x)))"
proof -
  have 1: "andThen (sliceFrom d eo) (\<lambda>b. andThen (Uint16 ord b) f) = f (entryTag ord (elems d) eo)" for f
    using assms by (simp add: Uint16_sliceFrom entryTag_def)
  have 2: "andThen (sliceFrom d (eo + 2)) (\<lambda>b. andThen (Uint16 ord b) f)
             = f (entryType ord (elems d) eo)" for f
    using assms by (simp add: Uint16_sliceFrom entryType_def eval_nat_numeral)
  have 3: "andThen (sliceFrom d (eo + 4)) (\<lambda>b. andThen (Uint32 ord b) f)
             = f (entryCount ord (elems d) eo)" for f
    using assms by (simp add: Uint32_sliceFrom entryCount_def eval_nat_numeral)
  have 4: "andThen (sliceFrom d (eo + 8)) (\<lambda>b. andThen (Uint32 ord b) f)
             = f (entrySlot ord (elems d) eo)" for f
    using assms by (simp add: Uint32_sliceFrom entrySlot_def eval_nat_numeral)
  show ?thesis
    unfolding parseIFD_entry_def prod.case 1 2 3 Let_def
    by (simp add: 4 del: One_nat_def)
qed





lemma parseIFD_eq:
  "parseIFD d ts off ord =
     (if off + 2 > slen d \<or> off + 2 + dirCount ord (elems d) off * 12 > slen d
      then Inl ErrInvalidExif
      else parseIFD_loop d ts ord (off + 2) [0..<dirCount ord (elems d) off] (Map.empty, 0))"
  by (simp add: parseIFD_def Uint16_sliceFrom dirCount_def Let_def)


lemma Uint16_slice:
  "lo + 2 \<le> slen d \<Longrightarrow>
   andThen (slice d lo (lo + 2)) (\<lambda>b. andThen (Uint16 ord b) f) =
     f (compose16 ord (elems d ! lo) (elems d ! (lo + 1)))"
  by (simp add: slice_ok Uint16_def slen_def add.commute)

lemma Uint32_slice:
  "lo + 4 \<le> slen d \<Longrightarrow>
   andThen (slice d lo (lo + 4)) (\<lambda>b. andThen (Uint32 ord b) f) =
     f (compose32 ord (elems d ! lo) (elems d ! (lo + 1)) (elems d ! (lo + 2)) (elems d ! (lo + 3)))"
  by (simp add: slice_ok Uint32_def slen_def add.commute)

lemma tiffData_parseIFD_entry_eq:
  assumes "eo + 12 \<le> slen (data t)"
  shows "tiffData_parseIFD_entry t eo vals =
     andThen (readValue t (entryType (order t) (elems (data t)) eo)
                (entryCount (order t) (elems (data t)) eo)
                (entrySlot (order t) (elems (data t)) eo)) (\<lambda>r.
       case r of
         None \<Rightarrow> Inr vals
       | Some v \<Rightarrow> Inr (vals(entryTag (order t) (elems (data t)) eo \<mapsto>
                     \<lparr>tagType = entryType (order t) (elems (data t)) eo, tvalue = v\<rparr>)))"
proof -
  let ?d = "data t" and ?o = "order t"
  have 1: "andThen (slice ?d eo (eo + 2)) (\<lambda>b. andThen (Uint16 ?o b) f)
             = f (entryTag ?o (elems ?d) eo)" for f
    using assms Uint16_slice [of eo ?d ?o f] by (simp add: entryTag_def)
  have 2: "andThen (slice ?d (eo + 2) (eo + 4)) (\<lambda>b. andThen (Uint16 ?o b) f)
             = f (entryType ?o (elems ?d) eo)" for f
    using assms Uint16_slice [of "eo + 2" ?d ?o f] by (simp add: entryType_def eval_nat_numeral)
  have 3: "andThen (slice ?d (eo + 4) (eo + 8)) (\<lambda>b. andThen (Uint32 ?o b) f)
             = f (entryCount ?o (elems ?d) eo)" for f
    using assms Uint32_slice [of "eo + 4" ?d ?o f] by (simp add: entryCount_def eval_nat_numeral)
  have 4: "andThen (slice ?d (eo + 8) (eo + 12)) (\<lambda>b. andThen (Uint32 ?o b) f)
             = f (entrySlot ?o (elems ?d) eo)" for f
    using assms Uint32_slice [of "eo + 8" ?d ?o f] by (simp add: entrySlot_def eval_nat_numeral)
  show ?thesis
    unfolding tiffData_parseIFD_entry_def 1 2 3 4 by simp
qed






lemma tiffData_parseIFD_eq:
  assumes "slen (data t) < 2 ^ 32"
  shows "tiffData_parseIFD t off =
     (if off = 0 then Inr Map.empty
      else if unat off + 2 > slen (data t) then Inl IfdOffsetOutOfRange
      else if unat off + 2 + dirCount (order t) (elems (data t)) (unat off) * 12 > slen (data t)
      then Inl IfdEntriesOutOfRange
      else tiffData_parseIFD_loop t (unat off + 2)
             [0..<dirCount (order t) (elems (data t)) (unat off)] Map.empty)"
proof (cases "off = 0 \<or> unat off + 2 > slen (data t)")
  case True
  then show ?thesis by (auto simp: tiffData_parseIFD_def)
next
  case False
  then have "unat off + unat (2 :: uint32) < 2 ^ 32"
    using assms by simp
  then have u: "unat (off + 2) = unat off + 2"
    by (simp add: unat_add_lem [THEN iffD1])
  have sl: "andThen (slice (data t) (unat off) (unat off + 2))
              (\<lambda>b. andThen (Uint16 (order t) b) f)
          = f (compose16 (order t) (elems (data t) ! unat off) (elems (data t) ! (unat off + 1)))"
    for f
    using False by (intro Uint16_slice) simp
  show ?thesis
    unfolding tiffData_parseIFD_def u sl Let_def dirCount_def
    using False by simp
qed


lemma unat_16_bound: "unat (l :: uint16) < 65536"
  using unsigned_less [of l, where 'a = nat] by simp

lemma findExifBlock_loop_slen:
  "findExifBlock_loop d offset = Inr seg \<Longrightarrow> slen seg < 65536"
proof (induction d offset rule: findExifBlock_loop.induct)
  case (1 d offset)
  from "1.prems" have go: "offset + 4 \<le> slen d"
    by (subst (asm) findExifBlock_loop.simps) (simp split: if_splits)
  then obtain b where b: "index d offset = Inr b"
    by (simp add: index_def)
  from go obtain marker where m: "index d (offset + 1) = Inr marker"
    by (simp add: index_def)
  from go obtain lb where lb: "slice d (offset + 2) (offset + 4) = Inr lb" and "slen lb = 2"
    by (simp add: slice_ok slen_def)
  then obtain l where l: "Uint16 BigEndian lb = Inr l"
    by (simp add: Uint16_def)
  note step = "1.prems" [unfolded findExifBlock_loop.simps [of d offset]]
  from step go b m lb l have c: "b = 0xFF" "marker \<noteq> jpegSOS"
      "\<not> (unat l < 2 \<or> offset + 2 + unat l > slen d)"
    by (auto simp: Let_def split: if_splits)
  let ?end = "offset + 2 + unat l"
  show ?case
  proof (cases "marker = jpegAPP1 \<and> ?end - (offset + 4) \<ge> exifHeaderLength")
    case True
    from c have "slice d (offset + 4) ?end =
        Inr \<lparr>elems = take (?end - (offset + 4)) (drop (offset + 4) (elems d)),
             spare = drop ?end (elems d) @ spare d\<rparr>"
      by (intro slice_ok) simp_all
    moreover from c have "length (take (?end - (offset + 4)) (drop (offset + 4) (elems d)))
        = unat l - 2"
      by (auto simp: slen_def min_def)
    ultimately obtain segment where sg: "slice d (offset + 4) ?end = Inr segment"
      and sl: "slen segment = unat l - 2"
      by (simp add: slen_def)
    from True sl have "exifHeaderLength \<le> slen segment" by simp
    then obtain h where h: "sliceTo segment exifHeaderLength = Inr h"
      by (simp add: sliceTo_def slice_ok)
    show ?thesis
    proof (cases "goString (elems h) = exifHeader")
      case eq: True
      with step go b m lb l c True sg h have "seg = segment"
        by (simp add: Let_def)
      with sl unat_16_bound [of l] show ?thesis by simp
    next
      case ne: False
      with step go b m lb l c True sg h have "findExifBlock_loop d ?end = Inr seg"
        by (simp add: Let_def)
      with "1.IH"(1) [OF go b _ m _ lb l refl _ refl refl True sg h ne] c show ?thesis
        by simp
    qed
  next
    case False
    with step go b m lb l c have "findExifBlock_loop d ?end = Inr seg"
      by (auto simp: Let_def)
    with "1.IH"(2) [OF go b _ m _ lb l refl _ refl refl False] c show ?thesis
      by simp
  qed
qed

lemma parseExif_header_slen:
  "parseExif_header d = Inr (tiff, off) \<Longrightarrow> slen (data tiff) < 2 ^ 32"
proof -
  assume a: "parseExif_header d = Inr (tiff, off)"
  then obtain exifBlock where f: "findExifBlock d = Inr exifBlock"
    by (cases "findExifBlock d") (simp_all add: parseExif_header_def)
  then have "findExifBlock_loop d 2 = Inr exifBlock"
    by (auto simp: findExifBlock_def andThen_def split: if_splits sum.splits)
  then have b: "slen exifBlock < 65536"
    by (rule findExifBlock_loop_slen)
  from a f obtain tiffBytes where s: "sliceFrom exifBlock exifHeaderLength = Inr tiffBytes"
    and t: "data tiff = tiffBytes"
    by (auto simp: parseExif_header_def andThen_def split: if_splits sum.splits)
  from s have "length (elems tiffBytes) \<le> length (elems exifBlock)"
    by (auto simp: sliceFrom_def slice_def slen_def split: if_splits)
  with b t show ?thesis
    by (simp add: slen_def)
qed

text \<open>
  Panics. parser.go has none: every index and slice bound of \<^verbatim>\<open>parseEXIF\<close> is within the
  buffer, and its only errors are \<^verbatim>\<open>ErrExifNotFound\<close> and \<^verbatim>\<open>ErrInvalidExif\<close>
  (\<open>parseEXIF_errors\<close>).
\<close>

lemma readIFDValue_returns: "\<exists>r. readIFDValue d ts ty cnt vo ord = Inr r"
proof (cases "typeSize ty")
  case None
  then show ?thesis by (simp add: readIFDValue_def)
next
  case (Some k)
  let ?bc = "unat cnt * k"
  have vs: "\<exists>r. (if ?bc > 4 then
               (if vo + 4 > slen d then Inr None
                else andThen (sliceFrom d vo) (\<lambda>b.
                     andThen (Uint32 ord b) (\<lambda>v. Inr (Some (ts + unat v)))))
             else Inr (Some vo)) = (Inr r :: error + nat option)"
    by (simp add: Uint32_sliceFrom)
  then obtain r where r: "(if ?bc > 4 then
               (if vo + 4 > slen d then Inr None
                else andThen (sliceFrom d vo) (\<lambda>b.
                     andThen (Uint32 ord b) (\<lambda>v. Inr (Some (ts + unat v)))))
             else Inr (Some vo)) = (Inr r :: error + nat option)" ..
  show ?thesis
  proof (cases r)
    case None
    with Some r show ?thesis by (simp add: readIFDValue_def Let_def)
  next
    case s: (Some start)
    show ?thesis
    proof (cases "start + ?bc > slen d")
      case True
      with Some r s show ?thesis by (simp add: readIFDValue_def Let_def)
    next
      case False
      then have sl: "slice d start (start + ?bc) =
          Inr \<lparr>elems = take ?bc (drop start (elems d)),
               spare = drop (start + ?bc) (elems d) @ spare d\<rparr>"
        by (simp add: slice_ok)
      have len: "length (take ?bc (drop start (elems d))) = ?bc"
        using False by (simp add: slen_def)
      have k: "k = 1 \<or> k = 2 \<or> k = 4"
        using Some by (auto simp: typeSize_def split: if_splits)
      have one: "unat cnt = 1" if "cnt = 1" using that by simp
      show ?thesis
        using Some r s False k len
        by (auto simp: readIFDValue_def Let_def sl formatShorts_eq formatLongs_eq
            formatRationals_eq Uint16_def Uint32_def index_def slen_def typeSize_def
            split: if_splits)
    qed
  qed
qed

lemma parseIFD_entry_returns:
  assumes "eo + 12 \<le> slen d"
  shows "\<exists>r. parseIFD_entry d ts ord eo st = Inr r"
proof -
  obtain vals x where st: "st = (vals, x)" by (cases st)
  obtain r where "readIFDValue d ts (entryType ord (elems d) eo) (entryCount ord (elems d) eo)
                   (eo + 8) ord = Inr r"
    using readIFDValue_returns by blast
  then show ?thesis
    unfolding st parseIFD_entry_eq [OF assms]
    by (cases r) simp_all
qed

lemma parseIFD_loop_returns:
  assumes "\<forall>i \<in> set ixs. es + i * 12 + 12 \<le> slen d"
  shows "\<exists>r. parseIFD_loop d ts ord es ixs st = Inr r"
  using assms
proof (induction ixs arbitrary: st)
  case Nil
  then show ?case by simp
next
  case (Cons i ixs)
  then obtain r where "parseIFD_entry d ts ord (es + i * 12) st = Inr r"
    using parseIFD_entry_returns [of "es + i * 12" d ts ord st] by auto
  with Cons show ?case by simp
qed

lemma parseIFD_errors:
  "parseIFD d ts off ord = Inl ErrInvalidExif \<or> (\<exists>r. parseIFD d ts off ord = Inr r)"
proof (cases "off + 2 > slen d \<or> off + 2 + dirCount ord (elems d) off * 12 > slen d")
  case True
  then show ?thesis by (simp add: parseIFD_eq)
next
  case False
  then have "\<forall>i \<in> set [0..<dirCount ord (elems d) off]. off + 2 + i * 12 + 12 \<le> slen d"
  proof -
    have "off + 2 + i * 12 + 12 \<le> slen d" if "i < dirCount ord (elems d) off" for i
    proof -
      from that have "i * 12 + 12 \<le> dirCount ord (elems d) off * 12" by simp
      with False show ?thesis by simp
    qed
    then show ?thesis by simp
  qed
  from parseIFD_loop_returns [OF this] False show ?thesis
    by (simp add: parseIFD_eq)
qed

lemma findExifSegment_loop_errors:
  "findExifSegment_loop d i = Inl ErrExifNotFound
   \<or> findExifSegment_loop d i = Inl ErrInvalidExif
   \<or> (\<exists>s. findExifSegment_loop d i = Inr s)"
proof (induction d i rule: findExifSegment_loop.induct)
  case (1 d i)
  show ?case
  proof (cases "i + 4 < slen d")
    case False
    then show ?thesis by (subst findExifSegment_loop.simps) simp
  next
    case True
    then have ix: "index d i = Inr (elems d ! i)" "index d (i + 1) = Inr (elems d ! (i + 1))"
      by (simp_all add: index_def)
    show ?thesis
    proof (cases "elems d ! i \<noteq> 0xFF")
      case a: True
      have "findExifSegment_loop d i = findExifSegment_loop d (i + 1)"
        using True a by (subst findExifSegment_loop.simps) (simp add: ix)
      with "1.IH"(1) [OF True ix(1) a] show ?thesis by simp
    next
      case a: False
      show ?thesis
      proof (cases "elems d ! (i + 1) = 0xE1")
        case b: True
        show ?thesis
          using True a b
          by (subst (1 2 3) findExifSegment_loop.simps)
            (auto simp: index_def Uint16_sliceFrom Let_def)
      next
        case b: False
        have "findExifSegment_loop d i = findExifSegment_loop d (i + 1)"
          using True a b by (subst findExifSegment_loop.simps) (simp add: index_def)
        moreover from a have a': "\<not> elems d ! i \<noteq> 0xFF" by simp
        ultimately show ?thesis
          using "1.IH"(2) [OF True ix(1) a' ix(2) b] by simp
      qed
    qed
  qed
qed

lemma byteOrder_errors:
  "byteOrder d = Inl ErrInvalidExif \<or> (\<exists>r. byteOrder d = Inr r)"
  by (simp add: byteOrder_def sliceTo_def slice_def scap_def slen_def)

lemma parseEXIF_header_errors:
  "parseEXIF_header d = Inl ErrExifNotFound \<or> parseEXIF_header d = Inl ErrInvalidExif
   \<or> (\<exists>r. parseEXIF_header d = Inr r)"
proof -
  consider "findExifSegment d = Inl ErrExifNotFound" | "findExifSegment d = Inl ErrInvalidExif"
    | s where "findExifSegment d = Inr s"
    using findExifSegment_loop_errors [of d 0] by (auto simp: findExifSegment_def)
  then show ?thesis
  proof cases
    case 1
    then show ?thesis by (simp add: parseEXIF_header_def)
  next
    case 2
    then show ?thesis by (simp add: parseEXIF_header_def)
  next
    case (3 s)
    show ?thesis
    proof (cases "slen d < s + 6 + 8")
      case True
      then show ?thesis
        using 3 by (auto simp: parseEXIF_header_def slice_ok Let_def)
    next
      case False
      then have a: "s + 6 + 4 + 4 \<le> slen d" "s + 6 \<le> slen d" by simp_all
      have sl: "slice d s (s + 6) = Inr \<lparr>elems = take 6 (drop s (elems d)),
                  spare = drop (s + 6) (elems d) @ spare d\<rparr>"
        using a by (simp add: slice_ok)
      have sf: "sliceFrom d (s + 6) = Inr \<lparr>elems = drop (s + 6) (elems d), spare = spare d\<rparr>"
        using a by (simp add: sliceFrom_ok)
      show ?thesis
        using 3 False byteOrder_errors [of "\<lparr>elems = drop (s + 6) (elems d), spare = spare d\<rparr>"]
        unfolding parseEXIF_header_def
        by (auto simp: sl sf Uint32_sliceFrom Let_def split: if_splits)
    qed
  qed
qed

lemma parseEXIF_errors:
  "parseEXIF d = Inl ErrExifNotFound \<or> parseEXIF d = Inl ErrInvalidExif
   \<or> (\<exists>r. parseEXIF d = Inr r)"
proof -
  consider "parseEXIF_header d = Inl ErrExifNotFound" | "parseEXIF_header d = Inl ErrInvalidExif"
    | ts ord ifd0 where "parseEXIF_header d = Inr (ts, ord, ifd0)"
    using parseEXIF_header_errors [of d] by auto
  then show ?thesis
  proof cases
    case 1
    then show ?thesis by (simp add: parseEXIF_staged)
  next
    case 2
    then show ?thesis by (simp add: parseEXIF_staged)
  next
    case (3 ts ord ifd0)
    show ?thesis
      using 3 parseIFD_errors [of d ts ifd0 ord]
    proof (elim disjE exE)
      fix r assume r: "parseIFD d ts ifd0 ord = Inr r"
      obtain vals x where rr: "r = (vals, x)" by (cases r)
      show ?thesis
        using 3 r rr parseIFD_errors [of d ts "ts + x" ord]
        by (auto simp: parseEXIF_staged mergeExifValues_def Let_def)
    qed (simp add: parseEXIF_staged)
  qed
qed

lemma parseEXIF_never_panics: "parseEXIF d \<noteq> Inl Panic"
  using parseEXIF_errors [of d] by auto

text \<open>
  extractor.go has one: \<^verbatim>\<open>readValue\<close> panics exactly on a rational or signed rational
  entry whose count times 8 is 0 in 32 bits (\<open>readValue_wrapped\<close>,
  \<open>readValue_returns\<close>), and \<^verbatim>\<open>parseExif\<close> panics only when a directory it decodes
  holds such an entry (\<open>parseExif_panics_only_wrapped\<close>), as it does whenever the main
  directory holds one (\<open>parseExif_wrapped_panics\<close>).
\<close>

lemma readASCII_returns: "\<exists>r. readASCII t cnt off = Inr r"
  by (simp add: readASCII_def readData_eq split: option.splits)

lemma readSignedLong_returns: "\<exists>r. readSignedLong t cnt off = Inr r"
proof (cases "cnt * 4 \<le> 4")
  case True
  then have "unat (cnt * 4) \<le> 4" by (simp add: word_le_nat_alt)
  then show ?thesis
    using True
    by (simp add: readSignedLong_def readData_eq sliceTo_def slice_def scap_def Uint32_def
        slen_def)
next
  case False
  then have "4 < unat (cnt * 4)" by (simp add: not_le word_less_nat_alt)
  then show ?thesis
    using False
    by (auto simp: readSignedLong_def readData_eq sliceTo_def slice_def scap_def Uint32_def
        slen_def)
qed

lemma readValue_wrapped:
  "wrappedRational ty cnt \<Longrightarrow> readValue t ty cnt off = Inl Panic"
  by (auto simp: wrappedRational_def readValue_def readRational_eq)

lemma readValue_returns:
  assumes "\<not> wrappedRational ty cnt"
  shows "\<exists>r. readValue t ty cnt off = Inr r"
proof -
  have rat: "\<exists>r. readRational t cnt off sg = Inr r"
    if "ty = typeRational \<or> ty = typeSRational" for sg
    using assms that
    by (auto simp: wrappedRational_def readRational_eq split: list.splits)
  show ?thesis
    using rat readASCII_returns [of t cnt off] readSignedLong_returns [of t cnt off]
    by (auto simp: readValue_def readShort_eq readLong_eq readByte_eq)
qed

lemma tiffData_parseIFD_entry_wrapped:
  assumes "eo + 12 \<le> slen (data t)" and "wrappedAt t eo"
  shows "tiffData_parseIFD_entry t eo vals = Inl Panic"
  using assms(2)
  by (simp add: tiffData_parseIFD_entry_eq [OF assms(1)] wrappedAt_def readValue_wrapped)

lemma tiffData_parseIFD_entry_returns:
  assumes "eo + 12 \<le> slen (data t)" and "\<not> wrappedAt t eo"
  shows "\<exists>r. tiffData_parseIFD_entry t eo vals = Inr r"
proof -
  obtain r where "readValue t (entryType (order t) (elems (data t)) eo)
                (entryCount (order t) (elems (data t)) eo)
                (entrySlot (order t) (elems (data t)) eo) = Inr r"
    using assms(2) readValue_returns unfolding wrappedAt_def by blast
  then show ?thesis
    unfolding tiffData_parseIFD_entry_eq [OF assms(1)]
    by (cases r) simp_all
qed

lemma tiffData_parseIFD_loop_panics:
  assumes "\<forall>i \<in> set ixs. es + i * 12 + 12 \<le> slen (data t)"
  shows "if \<exists>i \<in> set ixs. wrappedAt t (es + i * 12)
         then tiffData_parseIFD_loop t es ixs vals = Inl Panic
         else \<exists>r. tiffData_parseIFD_loop t es ixs vals = Inr r"
  using assms
proof (induction ixs arbitrary: vals)
  case Nil
  then show ?case by simp
next
  case (Cons i ixs)
  then have b: "es + i * 12 + 12 \<le> slen (data t)" by simp
  show ?case
  proof (cases "wrappedAt t (es + i * 12)")
    case True
    then show ?thesis
      using tiffData_parseIFD_entry_wrapped [of "es + i * 12" t vals] b by simp
  next
    case False
    then obtain r where r: "tiffData_parseIFD_entry t (es + i * 12) vals = Inr r"
      using tiffData_parseIFD_entry_returns [of "es + i * 12" t vals] b by auto
    from Cons.IH [of r] Cons.prems False r show ?thesis by simp
  qed
qed

lemma tiffData_parseIFD_panics:
  assumes "slen (data t) < 2 ^ 32" and "tiffData_parseIFD t off = Inl Panic"
  shows "\<exists>eo. eo + 12 \<le> slen (data t) \<and> wrappedAt t eo"
proof -
  let ?n = "dirCount (order t) (elems (data t)) (unat off)"
  from assms(2) have c: "unat off + 2 + ?n * 12 \<le> slen (data t)"
    and l: "tiffData_parseIFD_loop t (unat off + 2) [0..<?n] Map.empty = Inl Panic"
    by (simp_all add: tiffData_parseIFD_eq [OF assms(1)] split: if_splits)
  have bound: "unat off + 2 + i * 12 + 12 \<le> slen (data t)" if "i < ?n" for i
  proof -
    from that have "i * 12 + 12 \<le> ?n * 12" by simp
    with c show ?thesis by simp
  qed
  then have "\<forall>i \<in> set [0..<?n]. unat off + 2 + i * 12 + 12 \<le> slen (data t)" by simp
  from tiffData_parseIFD_loop_panics [OF this, of Map.empty] l
  obtain i where "i < ?n" "wrappedAt t (unat off + 2 + i * 12)"
    by (auto split: if_splits)
  with bound [of i] show ?thesis by blast
qed

lemma findExifBlock_loop_no_panic: "findExifBlock_loop d offset \<noteq> Inl Panic"
proof (induction d offset rule: findExifBlock_loop.induct)
  case (1 d offset)
  show ?case
  proof (cases "offset + 4 \<le> slen d")
    case False
    then show ?thesis by (subst findExifBlock_loop.simps) simp
  next
    case go: True
    then obtain b where b: "index d offset = Inr b"
      by (simp add: index_def)
    from go obtain marker where m: "index d (offset + 1) = Inr marker"
      by (simp add: index_def)
    from go obtain lb where lb: "slice d (offset + 2) (offset + 4) = Inr lb" and "slen lb = 2"
      by (simp add: slice_ok slen_def)
    then obtain l where l: "Uint16 BigEndian lb = Inr l"
      by (simp add: Uint16_def)
    note step = findExifBlock_loop.simps [of d offset]
    show ?thesis
    proof (cases "b \<noteq> 0xFF \<or> marker = jpegSOS \<or> unat l < 2 \<or> offset + 2 + unat l > slen d")
      case True
      then show ?thesis
        unfolding step using go b m lb l by (auto simp: Let_def)
    next
      case False
      then have c: "b = 0xFF" "marker \<noteq> jpegSOS"
        "\<not> (unat l < 2 \<or> offset + 2 + unat l > slen d)" by auto
      let ?end = "offset + 2 + unat l"
      show ?thesis
      proof (cases "marker = jpegAPP1 \<and> ?end - (offset + 4) \<ge> exifHeaderLength")
        case True
        from c have "slice d (offset + 4) ?end =
            Inr \<lparr>elems = take (?end - (offset + 4)) (drop (offset + 4) (elems d)),
                 spare = drop ?end (elems d) @ spare d\<rparr>"
          by (intro slice_ok) simp_all
        moreover from c have "length (take (?end - (offset + 4)) (drop (offset + 4) (elems d)))
            = unat l - 2"
          by (auto simp: slen_def min_def)
        ultimately obtain segment where sg: "slice d (offset + 4) ?end = Inr segment"
          and sl: "slen segment = unat l - 2"
          by (simp add: slen_def)
        from True sl have "exifHeaderLength \<le> slen segment" by simp
        then obtain h where h: "sliceTo segment exifHeaderLength = Inr h"
          by (simp add: sliceTo_def slice_ok)
        show ?thesis
        proof (cases "goString (elems h) = exifHeader")
          case eq: True
          with go b m lb l c True sg h show ?thesis
            unfolding step by (simp add: Let_def)
        next
          case ne: False
          with go b m lb l c True sg h
          have "findExifBlock_loop d offset = findExifBlock_loop d ?end"
            unfolding step by (simp add: Let_def)
          with "1.IH"(1) [OF go b _ m _ lb l refl _ refl refl True sg h ne] c show ?thesis
            by simp
        qed
      next
        case False
        with go b m lb l c have "findExifBlock_loop d offset = findExifBlock_loop d ?end"
          unfolding step by (auto simp: Let_def)
        with "1.IH"(2) [OF go b _ m _ lb l refl _ refl refl False] c show ?thesis
          by simp
      qed
    qed
  qed
qed

lemma findExifBlock_no_panic: "findExifBlock d \<noteq> Inl Panic"
  using findExifBlock_loop_no_panic [of d 2]
  by (simp add: findExifBlock_def index_def)

lemma parseExif_header_no_panic: "parseExif_header d \<noteq> Inl Panic"
proof (cases "findExifBlock d")
  case (Inl e)
  with findExifBlock_no_panic [of d] show ?thesis
    by (simp add: parseExif_header_def)
next
  case (Inr exifBlock)
  show ?thesis
  proof (cases "slen exifBlock < exifHeaderLength + 8")
    case True
    with Inr show ?thesis by (simp add: parseExif_header_def)
  next
    case False
    let ?tb = "\<lparr>elems = drop exifHeaderLength (elems exifBlock), spare = spare exifBlock\<rparr>"
    from False have sf: "sliceFrom exifBlock exifHeaderLength = Inr ?tb"
      by (simp add: sliceFrom_ok)
    from False have len: "8 \<le> slen ?tb" by (simp add: slen_def)
    then have a: "2 + 2 \<le> slen ?tb" "4 + 4 \<le> slen ?tb" by simp_all
    have bo: "parseByteOrder ?tb \<noteq> Inl Panic"
      using len by (simp add: parseByteOrder_def sliceTo_def slice_def scap_def slen_def)
    have m: "andThen (slice ?tb 2 4) (\<lambda>b. andThen (Uint16 ord b) f) =
        f (compose16 ord (elems ?tb ! 2) (elems ?tb ! (2 + 1)))" for ord f
      using Uint16_slice [OF a(1), of ord f] by simp
    have o: "andThen (slice ?tb 4 8) (\<lambda>b. andThen (Uint32 ord b) f) =
        f (compose32 ord (elems ?tb ! 4) (elems ?tb ! (4 + 1)) (elems ?tb ! (4 + 2))
             (elems ?tb ! (4 + 3)))" for ord f
      using Uint32_slice [OF a(2), of ord f] by simp
    show ?thesis
      using Inr False bo
      unfolding parseExif_header_def
      by (cases "parseByteOrder ?tb") (simp_all add: sf m o)
  qed
qed

lemma parseExif_panics_only_wrapped:
  assumes "parseExif d = Inl Panic"
  shows "\<exists>t off eo. parseExif_header d = Inr (t, off) \<and> eo + 12 \<le> slen (data t)
           \<and> wrappedAt t eo"
proof (cases "parseExif_header d")
  case (Inl e)
  with assms parseExif_header_no_panic [of d] show ?thesis
    by (simp add: parseExif_staged)
next
  case (Inr h)
  obtain t off where h: "h = (t, off)" by (cases h)
  have len: "slen (data t) < 2 ^ 32"
    using Inr h by (intro parseExif_header_slen [of d t off]) simp
  show ?thesis
  proof (cases "tiffData_parseIFD t off")
    case e: (Inl e)
    with assms Inr h have "tiffData_parseIFD t off = Inl Panic"
      by (simp add: parseExif_staged)
    from tiffData_parseIFD_panics [OF len this] Inr h show ?thesis by auto
  next
    case r: (Inr tags)
    with assms Inr h have "mergeExifIFD t tags = Inl Panic"
      by (cases "mergeExifIFD t tags") (simp_all add: parseExif_staged)
    then obtain x where "tiffData_parseIFD t x = Inl Panic"
      by (auto simp: mergeExifIFD_def split: option.splits sum.splits if_splits)
    from tiffData_parseIFD_panics [OF len this] Inr h show ?thesis by auto
  qed
qed

lemma parseExif_wrapped_panics:
  assumes "parseExif_header d = Inr (t, off)" and "off \<noteq> 0"
    and "unat off + 2 + dirCount (order t) (elems (data t)) (unat off) * 12 \<le> slen (data t)"
    and "i < dirCount (order t) (elems (data t)) (unat off)"
    and "wrappedAt t (unat off + 2 + i * 12)"
  shows "parseExif d = Inl Panic"
proof -
  let ?n = "dirCount (order t) (elems (data t)) (unat off)"
  have len: "slen (data t) < 2 ^ 32"
    using assms(1) by (rule parseExif_header_slen)
  have "unat off + 2 + j * 12 + 12 \<le> slen (data t)" if "j < ?n" for j
  proof -
    from that have "j * 12 + 12 \<le> ?n * 12" by simp
    with assms(3) show ?thesis by simp
  qed
  then have "\<forall>j \<in> set [0..<?n]. unat off + 2 + j * 12 + 12 \<le> slen (data t)" by simp
  from tiffData_parseIFD_loop_panics [OF this, of Map.empty] assms(4,5)
  have "tiffData_parseIFD_loop t (unat off + 2) [0..<?n] Map.empty = Inl Panic"
    by (auto split: if_splits)
  with assms(2,3) have "tiffData_parseIFD t off = Inl Panic"
    by (simp add: tiffData_parseIFD_eq [OF len])
  with assms(1) show ?thesis
    by (simp add: parseExif_staged)
qed

section \<open>Claims\<close>

text \<open>
  C1. The claim: both decoders perform only in-bounds reads, for every buffer.
  \<^verbatim>\<open>readRational\<close> of extractor.go breaks it. On \<open>rationalCount\<close> the size it passes to
  \<^verbatim>\<open>readData\<close>, the count times 8 in \<^verbatim>\<open>uint32\<close>, is 0, \<^verbatim>\<open>readData\<close> returns the
  4-byte inline buffer cut to length 0, and \<^verbatim>\<open>data[4:8]\<close> is past its capacity:
  \<^verbatim>\<open>parseExif\<close> panics. \<^verbatim>\<open>parseEXIF\<close> of parser.go, which multiplies in \<^verbatim>\<open>int\<close>, skips
  the entry. This is the only panic of either decoder (\<open>parseEXIF_never_panics\<close>,
  \<open>parseExif_panics_only_wrapped\<close>).
\<close>

theorem parseExif_rational_count_panics:
  "parseExif (fromBytes rationalCount) = Inl Panic \<and>
   parseEXIF (fromBytes rationalCount) = Inr (buildSummary Map.empty)"
  by (simp add: buffer_defs eval_defs cong: andThen_weak_cong)

text \<open>
  C2 (as amended). A buffer that does not begin with the SOI marker 0xFF 0xD8 makes
  \<^verbatim>\<open>parseExif\<close> of extractor.go fail with \<^verbatim>\<open>not a jpeg image\<close>, and no record is
  returned. (\<^verbatim>\<open>parseEXIF\<close> of parser.go has no such test: see the counterexample.)
\<close>

theorem parseExif_not_jpeg:
  assumes "take 2 (elems d) \<noteq> [0xFF, jpegSOI]"
  shows "parseExif d = Inl NotAJpegImage
         \<and> error_message NotAJpegImage = ''not a jpeg image''"
proof (cases "slen d < 4")
  case True
  then show ?thesis by (simp add: parseExif_def findExifBlock_def)
next
  case False
  then obtain b0 b1 rest where d: "elems d = b0 # b1 # rest"
    by (cases "elems d"; cases "tl (elems d)") (auto simp: slen_def)
  with assms have "b0 \<noteq> 0xFF \<or> b1 \<noteq> jpegSOI" by auto
  then show ?thesis
    using False d by (auto simp: parseExif_def findExifBlock_def index_def slen_def)
qed

theorem parseExif_not_jpeg_witness:
  "take 2 noSOI \<noteq> [0xFF, jpegSOI]
   \<and> parseExif (fromBytes noSOI) = Inl NotAJpegImage
   \<and> error_message NotAJpegImage = ''not a jpeg image''"
  using parseExif_not_jpeg [of "fromBytes noSOI"]
  by (simp add: fromBytes_def buffer_defs)

text \<open>
  C2 as stated fails for \<^verbatim>\<open>parseEXIF\<close> of parser.go, which scans for the bytes 0xFF 0xE1
  from offset 0 and never looks for the SOI marker: the buffer \<open>noSOI\<close> does not begin
  with 0xFF 0xD8 and is decoded with success.
\<close>

theorem parseEXIF_no_SOI_counterexample:
  "take 2 noSOI \<noteq> [0xFF, jpegSOI] \<and>
   parseEXIF (fromBytes noSOI) =
     Inr \<lparr>sMake = ''TestMake'', sModel = [], sLensModel = [], sDateTime = [], sFNumber = [],
          sExposureTime = [], sISOSpeed = [], sFocalLength = [], sExposureProgram = [],
          sMeteringMode = [], sWhiteBalance = [], sSoftware = [], sOrientation = [],
          sFlash = [], sSceneCaptureType = []\<rparr>"
  by (simp add: buffer_defs slice_defs parser_defs cong: andThen_weak_cong)

text \<open>
  C3 (as amended). In \<^verbatim>\<open>parseExif\<close> of extractor.go, once the Exif block is found, is long
  enough and its byte-order signature is resolved, a 2-byte value after the signature
  that, read in that byte order, differs from 0x002A makes the decode fail with
  \<^verbatim>\<open>invalid tiff header\<close>. (\<^verbatim>\<open>parseEXIF\<close> of parser.go never reads these two bytes: see
  the counterexample.)
\<close>

theorem parseExif_bad_magic:
  assumes "findExifBlock d = Inr exifBlock"
    and "exifHeaderLength + 8 \<le> slen exifBlock"
    and "sliceFrom exifBlock exifHeaderLength = Inr tiffBytes"
    and "parseByteOrder tiffBytes = Inr ord"
    and "compose16 ord (elems tiffBytes ! 2) (elems tiffBytes ! 3) \<noteq> tiffIdentifier"
  shows "parseExif d = Inl InvalidTiffHeader
         \<and> error_message InvalidTiffHeader = ''invalid tiff header''"
proof -
  have len: "8 \<le> slen tiffBytes"
    using assms(2,3) by (auto simp: sliceFrom_def slice_def slen_def scap_def split: if_splits)
  then have "slice tiffBytes 2 4 =
      Inr \<lparr>elems = take 2 (drop 2 (elems tiffBytes)),
           spare = drop 4 (elems tiffBytes) @ spare tiffBytes\<rparr>"
    by (simp add: slice_ok)
  moreover have "take 2 (drop 2 (elems tiffBytes)) ! 0 = elems tiffBytes ! 2"
    and "take 2 (drop 2 (elems tiffBytes)) ! 1 = elems tiffBytes ! 3"
    using len by (simp_all add: slen_def)
  ultimately show ?thesis
    using assms len by (simp add: parseExif_def Uint16_ok slen_def)
qed

theorem parseExif_bad_magic_witness:
  "parseExif (fromBytes badMagic) = Inl InvalidTiffHeader
   \<and> error_message InvalidTiffHeader = ''invalid tiff header''"
proof -
  let ?block = "\<lparr>elems = take 41 (drop 6 badMagic), spare = drop 47 badMagic\<rparr>"
  let ?tiff = "\<lparr>elems = take 35 (drop 12 badMagic), spare = drop 47 badMagic\<rparr>"
  have 1: "findExifBlock (fromBytes badMagic) = Inr ?block"
    by (simp add: buffer_defs slice_defs extractor_defs cong: andThen_weak_cong)
  have 2: "exifHeaderLength + 8 \<le> slen ?block"
    by (simp add: buffer_defs slen_def)
  have 3: "sliceFrom ?block exifHeaderLength = Inr ?tiff"
    by (simp add: buffer_defs slice_defs)
  have 4: "parseByteOrder ?tiff = Inr LittleEndian"
    by (simp add: buffer_defs slice_defs extractor_defs cong: andThen_weak_cong)
  have 5: "compose16 LittleEndian (elems ?tiff ! 2) (elems ?tiff ! 3) \<noteq> tiffIdentifier"
    by (simp add: buffer_defs compose16_def)
  show ?thesis
    by (rule parseExif_bad_magic [OF 1 2 3 4 5])
qed

text \<open>
  C3 as stated fails for \<^verbatim>\<open>parseEXIF\<close> of parser.go, which reads the byte order at
  \<^verbatim>\<open>tiffStart\<close> and the directory offset at \<^verbatim>\<open>tiffStart+4\<close> and nothing in between:
  \<open>badMagic\<close>, whose 2-byte value after \<^verbatim>\<open>II\<close> is 0x002B, is decoded with success.
\<close>

theorem parseEXIF_bad_magic_counterexample:
  "compose16 LittleEndian (badMagic ! 14) (badMagic ! 15) \<noteq> tiffIdentifier \<and>
   parseEXIF (fromBytes badMagic) =
     Inr \<lparr>sMake = ''TestMake'', sModel = [], sLensModel = [], sDateTime = [], sFNumber = [],
          sExposureTime = [], sISOSpeed = [], sFocalLength = [], sExposureProgram = [],
          sMeteringMode = [], sWhiteBalance = [], sSoftware = [], sOrientation = [],
          sFlash = [], sSceneCaptureType = []\<rparr>"
  by (simp add: buffer_defs slice_defs parser_defs cong: andThen_weak_cong)









text \<open>
  C7 (as amended). In parser.go, the value of an unsigned short (long) entry that is
  decoded is the comma-joined decimal strings of its \<open>count\<close> elements, one per element,
  in their on-disk order; with count 1 that is the decimal string of the single integer
  in the value slot. In extractor.go, \<^verbatim>\<open>readShort\<close> and \<^verbatim>\<open>readLong\<close> format the first
  element of the value bytes only, whatever the count.
\<close>

theorem short_long_formatting:
  "(readIFDValue d ts typeShort count vo ord = Inr (Some s) \<longrightarrow>
      s = stringsJoin (map (\<lambda>x. decimal (unat x))
            (shorts ord (take (unat count * 2)
               (drop (valueStartOf d ts ord vo (unat count * 2)) (elems d))))) '',''
      \<and> length (shorts ord (take (unat count * 2)
               (drop (valueStartOf d ts ord vo (unat count * 2)) (elems d)))) = unat count
      \<and> (count = 1 \<longrightarrow> s = decimal (unat (compose16 ord (elems d ! vo) (elems d ! (vo + 1))))))
   \<and> (readIFDValue d ts typeLong countL voL ord = Inr (Some sL) \<longrightarrow>
      sL = stringsJoin (map (\<lambda>x. decimal (unat x))
            (longs ord (take (unat countL * 4)
               (drop (valueStartOf d ts ord voL (unat countL * 4)) (elems d))))) '',''
      \<and> length (longs ord (take (unat countL * 4)
               (drop (valueStartOf d ts ord voL (unat countL * 4)) (elems d)))) = unat countL
      \<and> (countL = 1 \<longrightarrow> sL = decimal (unat (compose32 ord (elems d ! voL) (elems d ! (voL + 1))
                                           (elems d ! (voL + 2)) (elems d ! (voL + 3))))))
   \<and> (readShort t countK offK = Inr (Some sK) \<longrightarrow>
      sK = decimal (unat (compose16 (order t) (valueBytes t (countK * 2) offK ! 0)
                            (valueBytes t (countK * 2) offK ! 1))))
   \<and> (readLong t countM offM = Inr (Some sM) \<longrightarrow>
      sM = decimal (unat (compose32 (order t) (valueBytes t (countM * 4) offM ! 0)
              (valueBytes t (countM * 4) offM ! 1) (valueBytes t (countM * 4) offM ! 2)
              (valueBytes t (countM * 4) offM ! 3))))"
proof (intro conjI impI)
  let ?vs = "valueStartOf d ts ord vo (unat count * 2)"
  let ?vl = "valueStartOf d ts ord voL (unat countL * 4)"
  {
    assume a: "readIFDValue d ts typeShort count vo ord = Inr (Some s)"
    then have r: "\<not> slen d < ?vs + unat count * 2"
      by (simp add: readIFDValue_Short split: if_splits)
    show "s = stringsJoin (map (\<lambda>x. decimal (unat x))
            (shorts ord (take (unat count * 2) (drop ?vs (elems d))))) '',''"
      using a by (simp add: readIFDValue_Short split: if_splits)
    from r have "unat count * 2 \<le> length (drop ?vs (elems d))"
      by (simp add: slen_def)
    then show "length (shorts ord (take (unat count * 2) (drop ?vs (elems d)))) = unat count"
      by (simp add: length_shorts del: length_drop)
    {
      assume c: "count = 1"
      then have "?vs = vo" by (simp add: valueStartOf_def)
      moreover from this r c have "length (take 2 (drop vo (elems d))) = 2"
        by (simp add: slen_def)
      ultimately show "s = decimal (unat (compose16 ord (elems d ! vo) (elems d ! (vo + 1))))"
        using a c r by (simp add: readIFDValue_Short shorts_two slen_def split: if_splits)
    }
  }
  {
    assume a: "readIFDValue d ts typeLong countL voL ord = Inr (Some sL)"
    then have r: "\<not> slen d < ?vl + unat countL * 4"
      by (simp add: readIFDValue_Long split: if_splits)
    show "sL = stringsJoin (map (\<lambda>x. decimal (unat x))
            (longs ord (take (unat countL * 4) (drop ?vl (elems d))))) '',''"
      using a by (simp add: readIFDValue_Long split: if_splits)
    from r have "unat countL * 4 \<le> length (drop ?vl (elems d))"
      by (simp add: slen_def)
    then show "length (longs ord (take (unat countL * 4) (drop ?vl (elems d)))) = unat countL"
      by (simp add: length_longs del: length_drop)
    {
      assume c: "countL = 1"
      then have "?vl = voL" by (simp add: valueStartOf_def)
      moreover from this r c have "length (take 4 (drop voL (elems d))) = 4"
        by (simp add: slen_def)
      ultimately show "sL = decimal (unat (compose32 ord (elems d ! voL) (elems d ! (voL + 1))
                                           (elems d ! (voL + 2)) (elems d ! (voL + 3))))"
        using a c r by (simp add: readIFDValue_Long longs_four slen_def split: if_splits)
    }
  }
  {
    assume "readShort t countK offK = Inr (Some sK)"
    then show "sK = decimal (unat (compose16 (order t) (valueBytes t (countK * 2) offK ! 0)
                            (valueBytes t (countK * 2) offK ! 1)))"
      by (simp add: readShort_eq split: if_splits)
  }
  {
    assume "readLong t countM offM = Inr (Some sM)"
    then show "sM = decimal (unat (compose32 (order t) (valueBytes t (countM * 4) offM ! 0)
              (valueBytes t (countM * 4) offM ! 1) (valueBytes t (countM * 4) offM ! 2)
              (valueBytes t (countM * 4) offM ! 3)))"
      by (simp add: readLong_eq split: if_splits)
  }
qed

theorem short_long_formatting_witness:
  "readIFDValue (fromBytes twoShorts) 12 typeShort 2 30 BigEndian = Inr (Some ''100,200'')
   \<and> shorts BigEndian (take 4 (drop 30 twoShorts)) = [100, 200]
   \<and> readIFDValue (fromBytes twoShorts) 12 typeLong 1 30 BigEndian = Inr (Some ''6553800'')
   \<and> longs BigEndian (take 4 (drop 30 twoShorts)) = [6553800]
   \<and> readShort \<lparr>order = BigEndian, data = fromBytes (drop 12 twoShorts)\<rparr> 1 0x00640000
        = Inr (Some ''100'')
   \<and> readLong \<lparr>order = BigEndian, data = fromBytes (drop 12 twoShorts)\<rparr> 1 0x006400C8
        = Inr (Some ''6553800'')"
  using short_long_formatting
    [where d = "fromBytes twoShorts" and ts = 12 and ord = BigEndian
       and count = 2 and vo = 30 and s = "''100,200''"
       and countL = 1 and voL = 30 and sL = "''6553800''"
       and t = "\<lparr>order = BigEndian, data = fromBytes (drop 12 twoShorts)\<rparr>"
       and countK = 1 and offK = "0x00640000" and sK = "''100''"
       and countM = 1 and offM = "0x006400C8" and sM = "''6553800''"]
  by (simp add: buffer_defs slice_defs readIFDValue_Short readIFDValue_Long readShort_eq
      readLong_eq valueBytes_def valueStartOf_def decimal.simps digit_def)

text \<open>
  C7 as stated fails for count greater than 1 in extractor.go. In \<open>twoShorts\<close> the entry of
  tag 0x8827 holds the two shorts 100 and 200: the claim asks for \<^verbatim>\<open>100,200\<close>, and
  \<^verbatim>\<open>parseExif\<close> gives \<^verbatim>\<open>100\<close>.
\<close>

theorem readShort_first_only_counterexample:
  "parseExif (fromBytes twoShorts) =
     Inr \<lparr>Make = [], Model = [], DateTime = [], LensModel = [], ExposureTime = [],
          FNumber = [], ISO = ''100'', FocalLength = []\<rparr>
   \<and> stringsJoin (map (\<lambda>x. decimal (unat x)) (shorts BigEndian (take 4 (drop 30 twoShorts))))
         '','' = ''100,200''"
  by (simp add: buffer_defs slice_defs extractor_defs decimal.simps digit_def
      cong: andThen_weak_cong)

text \<open>
  C8 (as amended). In extractor.go, an entry of byte or undefined type is read by
  \<^verbatim>\<open>readByte\<close>, and a value it returns is the lowercase hexadecimal string of the first
  byte of the value bytes. In parser.go, an entry of byte type is decoded only when its
  count is 1, as the decimal string of that byte, and an entry of undefined type is
  never decoded.
\<close>

theorem byte_entry_formatting:
  "(readByte t count off = Inr (Some s) \<longrightarrow>
      s = hexadecimal (unat (valueBytes t count off ! 0))
      \<and> set s \<subseteq> set ''0123456789abcdef''
      \<and> hexValue s 0 = unat (valueBytes t count off ! 0))
   \<and> readValue t typeByte count off = readByte t count off
   \<and> readValue t typeUndefined count off = readByte t count off
   \<and> (readIFDValue d ts typeByte count' vo ord = Inr (Some s') \<longrightarrow>
        count' = 1 \<and> s' = decimal (unat (elems d ! vo)))
   \<and> readIFDValue d ts typeUndefined count' vo ord = Inr None"
proof (intro conjI impI)
  {
    assume "readByte t count off = Inr (Some s)"
    then show s: "s = hexadecimal (unat (valueBytes t count off ! 0))"
      by (simp add: readByte_eq split: if_splits)
    show "set s \<subseteq> set ''0123456789abcdef''"
      unfolding s by (rule hexadecimal_lowercase)
    show "hexValue s 0 = unat (valueBytes t count off ! 0)"
      unfolding s by (rule hexValue_hexadecimal)
  }
  show "readValue t typeByte count off = readByte t count off"
    by (simp add: readValue_def)
  show "readValue t typeUndefined count off = readByte t count off"
    by (simp add: readValue_def)
  {
    assume a: "readIFDValue d ts typeByte count' vo ord = Inr (Some s')"
    then show "count' = 1"
      by (simp add: readIFDValue_Byte split: if_splits)
    from a show "s' = decimal (unat (elems d ! vo))"
      by (simp add: readIFDValue_Byte split: if_splits)
  }
  show "readIFDValue d ts typeUndefined count' vo ord = Inr None"
    by (rule readIFDValue_Undefined)
qed

theorem byte_entry_formatting_witness:
  "readByte \<lparr>order = BigEndian, data = fromBytes (drop 12 byteEntry)\<rparr> 1 0x0A000000
     = Inr (Some ''a'')
   \<and> ''a'' = hexadecimal (unat (0x0A :: byte))
   \<and> hexValue ''a'' 0 = unat (0x0A :: byte)
   \<and> readIFDValue (fromBytes byteEntry) 12 typeByte 1 30 BigEndian = Inr (Some ''10'')
   \<and> ''10'' = decimal (unat (byteEntry ! 30))"
  using byte_entry_formatting
    [where t = "\<lparr>order = BigEndian, data = fromBytes (drop 12 byteEntry)\<rparr>"
       and count = 1 and off = "0x0A000000" and s = "''a''"
       and d = "fromBytes byteEntry" and ts = 12 and count' = 1 and vo = 30
       and ord = BigEndian and s' = "''10''"]
  by (simp add: buffer_defs slice_defs readByte_eq readIFDValue_Byte valueBytes_def
      hexadecimal.simps decimal.simps digit_def code_def)

text \<open>
  C8 as stated fails in parser.go, which formats a byte with \<^verbatim>\<open>%d\<close>. In \<open>byteEntry\<close> the
  entry of tag 0x010F is one byte 0x0A: its hexadecimal string is \<^verbatim>\<open>a\<close>, and \<^verbatim>\<open>parseEXIF\<close>
  gives \<^verbatim>\<open>10\<close>.
\<close>

theorem byte_entry_decimal_counterexample:
  "parseEXIF (fromBytes byteEntry) =
     Inr \<lparr>sMake = ''10'', sModel = [], sLensModel = [], sDateTime = [], sFNumber = [],
          sExposureTime = [], sISOSpeed = [], sFocalLength = [], sExposureProgram = [],
          sMeteringMode = [], sWhiteBalance = [], sSoftware = [], sOrientation = [],
          sFlash = [], sSceneCaptureType = []\<rparr>
   \<and> hexadecimal (unat (byteEntry ! 30)) = ''a''"
  by (simp add: buffer_defs slice_defs parser_defs decimal.simps hexadecimal.simps digit_def
      cong: andThen_weak_cong)

text \<open>
  C9 (as amended). In parser.go, when after merging both tag 0x9003 and tag 0x0132
  carry non-empty values, the date/time field of the output record is the value of tag
  0x9003. In extractor.go the date/time field is made from tag 0x0132 alone (reformatted
  when it parses as a date): tag 0x9003 is never looked at.
\<close>

theorem dateTime_preference:
  "(parseEXIF_tags d = Inr merged
      \<and> lookupString merged ifdTagDateTimeOriginal \<noteq> []
      \<and> lookupString merged ifdTagDateTime \<noteq> [] \<longrightarrow>
    parseEXIF d = Inr (buildSummary merged)
      \<and> sDateTime (buildSummary merged) = lookupString merged ifdTagDateTimeOriginal)
   \<and> (parseExif_tags d' = Inr merged' \<longrightarrow>
    parseExif d' = Inr (buildMetadata merged')
      \<and> DateTime (buildMetadata merged') = reformatDateTime (lookupValue merged' tagDateTime))"
proof (intro conjI impI)
  {
    assume a: "parseEXIF_tags d = Inr merged
      \<and> lookupString merged ifdTagDateTimeOriginal \<noteq> []
      \<and> lookupString merged ifdTagDateTime \<noteq> []"
    then show "parseEXIF d = Inr (buildSummary merged)"
      by (auto simp: parseEXIF_staged parseEXIF_tags_def andThen_def
          split: sum.splits prod.splits)
    from a show "sDateTime (buildSummary merged) = lookupString merged ifdTagDateTimeOriginal"
      by (simp add: buildSummary_def)
  }
  {
    assume "parseExif_tags d' = Inr merged'"
    then show "parseExif d' = Inr (buildMetadata merged')"
      by (auto simp: parseExif_staged parseExif_tags_def andThen_def
          split: sum.splits prod.splits)
    show "DateTime (buildMetadata merged') = reformatDateTime (lookupValue merged' tagDateTime)"
      by (simp add: buildMetadata_def)
  }
qed

theorem dateTime_preference_witness:
  "parseEXIF_tags (fromBytes subIFD)
     = Inr [ifdTagDateTime \<mapsto> ''B'', ifdTagMake \<mapsto> ''S'', ifdTagDateTimeOriginal \<mapsto> ''A'']
   \<and> sDateTime (buildSummary
         [ifdTagDateTime \<mapsto> ''B'', ifdTagMake \<mapsto> ''S'', ifdTagDateTimeOriginal \<mapsto> ''A''])
       = ''A''
   \<and> parseExif_tags (fromBytes subIFD)
       = Inr [tagDateTime \<mapsto> \<lparr>tagType = typeASCII, tvalue = ''B''\<rparr>,
              tagExifIFD \<mapsto> \<lparr>tagType = typeLong, tvalue = ''50''\<rparr>,
              tagMake \<mapsto> \<lparr>tagType = typeASCII, tvalue = ''S''\<rparr>,
              ifdTagDateTimeOriginal \<mapsto> \<lparr>tagType = typeASCII, tvalue = ''A''\<rparr>]
   \<and> DateTime (buildMetadata
         [tagDateTime \<mapsto> \<lparr>tagType = typeASCII, tvalue = ''B''\<rparr>,
          tagExifIFD \<mapsto> \<lparr>tagType = typeLong, tvalue = ''50''\<rparr>,
          tagMake \<mapsto> \<lparr>tagType = typeASCII, tvalue = ''S''\<rparr>,
          ifdTagDateTimeOriginal \<mapsto> \<lparr>tagType = typeASCII, tvalue = ''A''\<rparr>])
       = ''B''"
  using dateTime_preference
    [where d = "fromBytes subIFD"
       and merged = "[ifdTagDateTime \<mapsto> ''B'', ifdTagMake \<mapsto> ''S'',
                      ifdTagDateTimeOriginal \<mapsto> ''A'']"
       and d' = "fromBytes subIFD"
       and merged' = "[tagDateTime \<mapsto> \<lparr>tagType = typeASCII, tvalue = ''B''\<rparr>,
              tagExifIFD \<mapsto> \<lparr>tagType = typeLong, tvalue = ''50''\<rparr>,
              tagMake \<mapsto> \<lparr>tagType = typeASCII, tvalue = ''S''\<rparr>,
              ifdTagDateTimeOriginal \<mapsto> \<lparr>tagType = typeASCII, tvalue = ''A''\<rparr>]"]
  by (simp add: subIFD_def eval_defs cong: andThen_weak_cong)

text \<open>
  C9 as stated fails in extractor.go. In \<open>subIFD\<close> the tags 0x9003 and 0x0132 have the
  values \<^verbatim>\<open>A\<close> and \<^verbatim>\<open>B\<close> after merging: the claim asks for \<^verbatim>\<open>A\<close>, and the date/time
  field of \<^verbatim>\<open>parseExif\<close> is \<^verbatim>\<open>B\<close>.
\<close>

theorem dateTime_original_ignored_counterexample:
  "(case parseExif_tags (fromBytes subIFD) of
      Inl e \<Rightarrow> False
    | Inr merged \<Rightarrow> lookupValue merged ifdTagDateTimeOriginal = ''A''
                   \<and> lookupValue merged tagDateTime = ''B'')
   \<and> parseExif (fromBytes subIFD) =
       Inr \<lparr>Make = ''S'', Model = [], DateTime = ''B'', LensModel = [], ExposureTime = [],
            FNumber = [], ISO = [], FocalLength = []\<rparr>"
  by (simp add: subIFD_def eval_defs cong: andThen_weak_cong)

text \<open>
  C10. In \<^verbatim>\<open>readData\<close> of extractor.go, for a request of at most 4 bytes, writing the
  decoded 32-bit value slot back with \<^verbatim>\<open>PutUint32\<close> in the same byte order gives the four
  slot bytes as they are on disk, for both byte orders: the slice returned holds the
  first \<open>sz\<close> of them, \<open>sz\<close> being the size asked for (and the rest of the four as spare capacity).
\<close>

theorem readData_inline_roundtrip:
  assumes "slen slot = 4" and "Uint32 (order t) slot = Inr valueOffset" and "sz \<le> 4"
  shows "readData t sz valueOffset =
           Inr (Some \<lparr>elems = take (unat sz) (elems slot),
                      spare = drop (unat sz) (elems slot)\<rparr>)"
proof -
  obtain b0 b1 b2 b3 where slot: "elems slot = [b0, b1, b2, b3]"
    using assms(1) by (auto simp: slen_def length_Suc_conv numeral_eq_Suc)
  have "unat sz \<le> 4"
    using assms(3) by (simp add: word_le_nat_alt)
  moreover have "PutUint32 (order t) (makeBytes 4) valueOffset = Inr \<lparr>elems = [b0, b1, b2, b3], spare = []\<rparr>"
    using assms(2) bytes32_compose32 [of "order t" b0 b1 b2 b3]
    by (auto simp: PutUint32_def Uint32_def makeBytes_def slen_def slot numeral_eq_Suc)
  ultimately show ?thesis
    using assms(3) by (simp add: readData_def sliceTo_def slice_def scap_def slot)
qed

theorem readData_inline_roundtrip_witness:
  "readData \<lparr>order = BigEndian, data = fromBytes []\<rparr> 2 0x00070000 =
     Inr (Some \<lparr>elems = [0x00, 0x07], spare = [0x00, 0x00]\<rparr>)"
  using readData_inline_roundtrip
    [of "fromBytes [0x00, 0x07, 0x00, 0x00]" "\<lparr>order = BigEndian, data = fromBytes []\<rparr>"
        "0x00070000" 2]
  by (simp add: slen_def fromBytes_def Uint32_def compose32_def)

end
